theory Spec2Isabelle
  imports Complex_Main "HOL-Library.AList" "HOL-Library.Product_Lexorder"
begin

section \<open>Python values shared by the components\<close>

text \<open>
  Scores are Python floats; a score is modelled by the real number it denotes. The two
  merges of the retrieval pipeline sort by scores that they compute with floating-point
  products and sums, and the order of their output depends on which of these come out
  equal after rounding. The multiplication, the addition and the value of a decimal
  literal are therefore parameters of the model (\<open>float_ops\<close>): what is proved about a merge
  holds for every choice of them, the operations on IEEE doubles included. \<open>exact_ops\<close> is
  the arithmetic without rounding, in which the examples are evaluated.

  A dictionary key that may be absent (read with \<^verbatim>\<open>.get\<close>) is an option field, \<open>None\<close>
  standing for an absent key. The key \<^verbatim>\<open>content\<close>, under which the retriever can store
  \<^verbatim>\<open>None\<close>, has a type that tells the stored \<^verbatim>\<open>None\<close> from the absent key. Document ids
  are strings, chunk indices Python ints.
\<close>

record float_ops =
  fmul :: "real \<Rightarrow> real \<Rightarrow> real"
  fadd :: "real \<Rightarrow> real \<Rightarrow> real"
  lit :: "real \<Rightarrow> real"

definition exact_ops :: float_ops where
  "exact_ops = \<lparr>fmul = (\<lambda>x y. x * y), fadd = (\<lambda>x y. x + y), lit = (\<lambda>x. x)\<rparr>"

text \<open>The value under the key \<^verbatim>\<open>content\<close> of a result dictionary.\<close>

datatype content_field = Absent | StoredNone | Text string

text \<open>\<^verbatim>\<open>str(i)\<close> for a Python int: decimal digits, a leading minus for negatives.\<close>

definition digit_char :: "nat \<Rightarrow> char" where
  "digit_char d = ''0123456789'' ! d"

fun digits_nat :: "nat \<Rightarrow> string" where
  "digits_nat n = (if n < 10 then [digit_char n] else digits_nat (n div 10) @ [digit_char (n mod 10)])"

declare digits_nat.simps [simp del]

definition py_str_int :: "int \<Rightarrow> string" where
  "py_str_int i = (if i < 0 then CHR ''-'' # digits_nat (nat (- i)) else digits_nat (nat i))"

text \<open>Reading a decimal rendering back, to show that the rendering loses nothing.\<close>

definition digit_val :: "char \<Rightarrow> nat" where
  "digit_val c = (case map_of (zip ''0123456789'' [0..<10]) c of Some d \<Rightarrow> d | None \<Rightarrow> 0)"

fun digits_val :: "string \<Rightarrow> nat \<Rightarrow> nat" where
  "digits_val [] acc = acc"
| "digits_val (c # cs) acc = digits_val cs (10 * acc + digit_val c)"

text \<open>\<^verbatim>\<open>d.get("score", 0)\<close>: an absent score reads as 0.\<close>

definition get0 :: "real option \<Rightarrow> real" where
  "get0 x = (case x of None \<Rightarrow> 0 | Some v \<Rightarrow> v)"

text \<open>Truthiness of \<^verbatim>\<open>doc_id\<close>: \<^verbatim>\<open>None\<close> and the empty string are falsy.\<close>

definition truthy_str :: "string option \<Rightarrow> bool" where
  "truthy_str x = (case x of None \<Rightarrow> False | Some s \<Rightarrow> s \<noteq> [])"

text \<open>Truthiness of a float-or-None, as used by Python's \<^verbatim>\<open>or\<close>.\<close>

definition truthy_num :: "real option \<Rightarrow> bool" where
  "truthy_num x = (case x of None \<Rightarrow> False | Some v \<Rightarrow> v \<noteq> 0)"

section \<open>Retrieval engine (retriever.py)\<close>

text \<open>
  A payload or metadata dictionary: the three fields the retriever inspects, and the
  remaining entries as an association list.
\<close>

record meta =
  m_document_id :: "string option"
  m_chunk_index :: "int option"
  m_id :: "string option"
  m_fields :: "(string \<times> string) list"

definition empty_meta :: meta where
  "empty_meta = \<lparr>m_document_id = None, m_chunk_index = None, m_id = None, m_fields = []\<rparr>"

text \<open>Python's \<^verbatim>\<open>if metadata:\<close> on a dictionary: true when it has at least one key.\<close>

definition meta_nonempty :: "meta \<Rightarrow> bool" where
  "meta_nonempty m \<longleftrightarrow>
     m_document_id m \<noteq> None \<or> m_chunk_index m \<noteq> None \<or> m_id m \<noteq> None \<or> m_fields m \<noteq> []"

text \<open>
  A result dictionary as it flows through \<^verbatim>\<open>Retriever.retrieve\<close>: raw vector or keyword
  hits, merged entries and processed results are all Python dicts over these keys.
\<close>

record hit =
  h_id :: "string option"
  h_document_id :: "string option"
  h_chunk_index :: "int option"
  h_score :: "real option"
  h_vector_score :: "real option"
  h_keyword_score :: "real option"
  h_combined_score :: "real option"
  h_payload :: "meta option"
  h_content :: content_field
  h_metadata :: "meta option"

definition empty_hit :: hit where
  "empty_hit = \<lparr>h_id = None, h_document_id = None, h_chunk_index = None, h_score = None,
     h_vector_score = None, h_keyword_score = None, h_combined_score = None,
     h_payload = None, h_content = Absent, h_metadata = None\<rparr>"

text \<open>\<^verbatim>\<open>key = f"{doc_id}:{chunk_index}"\<close>\<close>

definition merge_key :: "string \<Rightarrow> int \<Rightarrow> string" where
  "merge_key doc_id chunk_index = doc_id @ '':'' @ py_str_int chunk_index"

text \<open>\<^verbatim>\<open>result.get("payload", {})\<close>\<close>

definition payload_of :: "hit \<Rightarrow> meta" where
  "payload_of r = (case h_payload r of None \<Rightarrow> empty_meta | Some p \<Rightarrow> p)"

text \<open>
  The key under which a vector hit is merged, \<open>None\<close> when the hit is skipped by
  \<^verbatim>\<open>if not (doc_id and chunk_index is not None): continue\<close>. Vector hits carry the pair
  in their payload, keyword hits at top level.
\<close>

definition vector_key :: "hit \<Rightarrow> string option" where
  "vector_key r =
     (let doc_id = m_document_id (payload_of r); chunk_index = m_chunk_index (payload_of r)
      in if \<not> (truthy_str doc_id \<and> chunk_index \<noteq> None) then None
         else Some (merge_key (the doc_id) (the chunk_index)))"

definition keyword_key :: "hit \<Rightarrow> string option" where
  "keyword_key r =
     (let doc_id = h_document_id r; chunk_index = h_chunk_index r
      in if \<not> (truthy_str doc_id \<and> chunk_index \<noteq> None) then None
         else Some (merge_key (the doc_id) (the chunk_index)))"

text \<open>The dictionary entry built for a vector hit (lines 256-264).\<close>

definition vector_entry :: "hit \<Rightarrow> hit" where
  "vector_entry r =
     \<lparr>h_id = vector_key r,
      h_document_id = m_document_id (payload_of r),
      h_chunk_index = m_chunk_index (payload_of r),
      h_score = None,
      h_vector_score = Some (get0 (h_score r)),
      h_keyword_score = Some 0,
      h_combined_score = Some (get0 (h_score r)),
      h_payload = Some (payload_of r),
      h_content = Absent,
      h_metadata = None\<rparr>"

text \<open>The dictionary entry built for a keyword hit whose key is new (lines 284-292).\<close>

definition keyword_entry :: "float_ops \<Rightarrow> hit \<Rightarrow> hit" where
  "keyword_entry ops r =
     \<lparr>h_id = keyword_key r,
      h_document_id = h_document_id r,
      h_chunk_index = h_chunk_index r,
      h_score = None,
      h_vector_score = Some 0,
      h_keyword_score = Some (get0 (h_score r)),
      h_combined_score = Some (fmul ops (lit ops 0.3) (get0 (h_score r))),
      h_payload = Some (payload_of r),
      h_content = Absent,
      h_metadata = None\<rparr>"

text \<open>
  The dict \<^verbatim>\<open>merged\<close> keeps insertion order; it is an association list in which
  assigning to an existing key keeps the key's position (\<open>AList.update\<close>).
\<close>

fun merge_vector :: "hit list \<Rightarrow> (string \<times> hit) list \<Rightarrow> (string \<times> hit) list" where
  "merge_vector [] merged = merged"
| "merge_vector (r # rs) merged =
     (case vector_key r of
        None \<Rightarrow> merge_vector rs merged
      | Some key \<Rightarrow> merge_vector rs (AList.update key (vector_entry r) merged))"

definition keyword_step ::
  "float_ops \<Rightarrow> hit \<Rightarrow> string \<Rightarrow> (string \<times> hit) list \<Rightarrow> (string \<times> hit) list" where
  "keyword_step ops r key merged =
     (let keyword_score = get0 (h_score r)
      in case map_of merged key of
           Some e \<Rightarrow>
             AList.update key
               (e\<lparr>h_keyword_score := Some keyword_score,
                  h_combined_score :=
                    Some (fadd ops (fmul ops (lit ops 0.7) (get0 (h_vector_score e)))
                                   (fmul ops (lit ops 0.3) keyword_score))\<rparr>)
               merged
         | None \<Rightarrow> AList.update key (keyword_entry ops r) merged)"

fun merge_keyword :: "float_ops \<Rightarrow> hit list \<Rightarrow> (string \<times> hit) list \<Rightarrow> (string \<times> hit) list" where
  "merge_keyword ops [] merged = merged"
| "merge_keyword ops (r # rs) merged =
     (case keyword_key r of
        None \<Rightarrow> merge_keyword ops rs merged
      | Some key \<Rightarrow> merge_keyword ops rs (keyword_step ops r key merged))"

definition merged_dict :: "float_ops \<Rightarrow> hit list \<Rightarrow> hit list \<Rightarrow> (string \<times> hit) list" where
  "merged_dict ops vector_results keyword_results =
     merge_keyword ops keyword_results (merge_vector vector_results [])"

text \<open>
  \<^verbatim>\<open>results.sort(key=lambda x: x["combined_score"], reverse=True)\<close>: Python's sort is
  stable also with \<^verbatim>\<open>reverse=True\<close>, so it is the stable sort on the negated key (every
  entry of \<^verbatim>\<open>merged\<close> has the key \<^verbatim>\<open>combined_score\<close>).
\<close>

definition merge_results :: "float_ops \<Rightarrow> hit list \<Rightarrow> hit list \<Rightarrow> hit list" where
  "merge_results ops vector_results keyword_results =
     sort_key (\<lambda>e. - get0 (h_combined_score e))
       (map snd (merged_dict ops vector_results keyword_results))"

text \<open>
  Vocabulary for stating properties of the merge: the merge keys of the hits that are
  not skipped, in input order; the last element of a list satisfying a predicate (the
  occurrence that wins when a key is assigned repeatedly); and the order in which a
  Python dict lists keys inserted one after another (first occurrences).
\<close>

definition vector_keys :: "hit list \<Rightarrow> string list" where
  "vector_keys rs = List.map_filter vector_key rs"

definition keyword_keys :: "hit list \<Rightarrow> string list" where
  "keyword_keys rs = List.map_filter keyword_key rs"

fun last_with :: "('a \<Rightarrow> bool) \<Rightarrow> 'a list \<Rightarrow> 'a option" where
  "last_with P [] = None"
| "last_with P (x # xs) =
     (case last_with P xs of Some y \<Rightarrow> Some y | None \<Rightarrow> if P x then Some x else None)"

definition insert_key :: "'a \<Rightarrow> 'a list \<Rightarrow> 'a list" where
  "insert_key k ks = (if k \<in> set ks then ks else ks @ [k])"

text \<open>\<^verbatim>\<open>list(dict.fromkeys(xs))\<close>\<close>

definition dict_fromkeys :: "'a list \<Rightarrow> 'a list" where
  "dict_fromkeys xs = fold insert_key xs []"

text \<open>Example hits: a vector hit with its pair in the payload, a keyword hit.\<close>

definition vhit :: "string \<Rightarrow> int \<Rightarrow> real \<Rightarrow> hit" where
  "vhit d c s = empty_hit\<lparr>h_score := Some s,
      h_payload := Some (empty_meta\<lparr>m_document_id := Some d, m_chunk_index := Some c\<rparr>)\<rparr>"

definition khit :: "string \<Rightarrow> int \<Rightarrow> real \<Rightarrow> hit" where
  "khit d c s = empty_hit\<lparr>h_document_id := Some d, h_chunk_index := Some c, h_score := Some s\<rparr>"

text \<open>
  The combined score of a key in terms of the inputs (scores of the last hit with that
  key on each side): 0.7 * vector + 0.3 * keyword when both sides have the key, the vector
  score for a vector-only key, 0.3 * keyword for a keyword-only key. When several keyword
  hits share a keyword-only key, the later ones meet the entry of the first, whose vector
  score is 0, and the score is computed as 0.7 * 0 + 0.3 * keyword.
\<close>

definition expected_combined :: "float_ops \<Rightarrow> hit list \<Rightarrow> hit list \<Rightarrow> string \<Rightarrow> real option" where
  "expected_combined ops vs ks k =
     (case (last_with (\<lambda>r. vector_key r = Some k) vs,
            last_with (\<lambda>r. keyword_key r = Some k) ks) of
        (Some v, Some w) \<Rightarrow>
          Some (fadd ops (fmul ops (lit ops 0.7) (get0 (h_score v)))
                         (fmul ops (lit ops 0.3) (get0 (h_score w))))
      | (Some v, None) \<Rightarrow> Some (get0 (h_score v))
      | (None, Some w) \<Rightarrow>
          (if length (filter (\<lambda>r. keyword_key r = Some k) ks) \<le> 1
           then Some (fmul ops (lit ops 0.3) (get0 (h_score w)))
           else Some (fadd ops (fmul ops (lit ops 0.7) 0)
                               (fmul ops (lit ops 0.3) (get0 (h_score w)))))
      | (None, None) \<Rightarrow> None)"

text \<open>The keys in the order in which the dictionary \<^verbatim>\<open>merged\<close> lists them: the vector keys
  by first occurrence, then the keyword-only keys by first occurrence.\<close>

definition merged_keys :: "hit list \<Rightarrow> hit list \<Rightarrow> string list" where
  "merged_keys vs ks =
     dict_fromkeys (vector_keys vs) @
     filter (\<lambda>k. k \<notin> set (vector_keys vs)) (dict_fromkeys (keyword_keys ks))"

text \<open>Every entry of the dictionary records its own key in the field \<^verbatim>\<open>id\<close>.\<close>

definition ids_ok :: "(string \<times> hit) list \<Rightarrow> bool" where
  "ids_ok al \<longleftrightarrow> (\<forall>k e. map_of al k = Some e \<longrightarrow> h_id e = Some k)"

text \<open>An entry stems from a hit that passed the guard on document id and chunk index, and
  its \<^verbatim>\<open>id\<close> is the key built from the two.\<close>

definition from_valid :: "hit list \<Rightarrow> hit list \<Rightarrow> hit \<Rightarrow> bool" where
  "from_valid vs ks e \<longleftrightarrow>
     (\<exists>d c. h_document_id e = Some d \<and> d \<noteq> [] \<and> h_chunk_index e = Some c \<and>
        h_id e = Some (merge_key d c) \<and>
        ((\<exists>r \<in> set vs. m_document_id (payload_of r) = Some d \<and> m_chunk_index (payload_of r) = Some c)
         \<or> (\<exists>r \<in> set ks. h_document_id r = Some d \<and> h_chunk_index r = Some c)))"

subsection \<open>The retrieve pipeline\<close>

text \<open>An exception raised by a collaborator, carried as a value.\<close>

datatype py_error = PyError string

text \<open>A row returned by the chunk-content lookup.\<close>

record chunk_data =
  cd_content :: "string option"
  cd_metadata :: "meta option"

text \<open>
  The retriever's configuration flags and its collaborators. \<open>cache_get\<close> is the outcome
  of \<^verbatim>\<open>_get_cached_results\<close> (the empty list on a miss or a cache failure);
  \<open>vector_search\<close> stands for embedding the query and searching the vector store, which
  may raise; \<open>batch_fetch_chunks\<close> is the content lookup, which catches its own failures
  and then returns fewer rows.
\<close>

record retriever_env =
  default_top_k :: int
  hybrid_search_enabled :: bool
  reranking_enabled :: bool
  cache_enabled :: bool
  cache_get :: "string \<Rightarrow> hit list"
  vector_search :: "string \<Rightarrow> int \<Rightarrow> py_error + hit list"
  batch_fetch_chunks :: "(string \<times> int) list \<Rightarrow> (string \<times> int) \<Rightarrow> chunk_data option"

text \<open>\<^verbatim>\<open>_keyword_search\<close> is a placeholder that returns no hits.\<close>

definition keyword_search :: "string \<Rightarrow> int \<Rightarrow> hit list" where
  "keyword_search query top_k = []"

text \<open>\<^verbatim>\<open>_rerank_results\<close> is a placeholder that returns its input.\<close>

definition rerank_results :: "string \<Rightarrow> hit list \<Rightarrow> hit list" where
  "rerank_results query results = results"

definition ids_to_fetch :: "hit list \<Rightarrow> (string \<times> int) list" where
  "ids_to_fetch results =
     List.map_filter (\<lambda>r. case (h_document_id r, h_chunk_index r) of
                             (Some d, Some c) \<Rightarrow> Some (d, c) | _ \<Rightarrow> None) results"

text \<open>
  \<^verbatim>\<open>result["content"] = contents[key].get("content")\<close>: for a row without content the
  value \<^verbatim>\<open>None\<close> is stored under the key.
\<close>

definition add_content :: "((string \<times> int) \<Rightarrow> chunk_data option) \<Rightarrow> hit \<Rightarrow> hit" where
  "add_content contents r =
     (case (h_document_id r, h_chunk_index r) of
        (Some d, Some c) \<Rightarrow>
          (case contents (d, c) of
             Some cd \<Rightarrow> r\<lparr>h_content := (case cd_content cd of None \<Rightarrow> StoredNone
                                           | Some t \<Rightarrow> Text t),
                          h_metadata := Some (case cd_metadata cd of None \<Rightarrow> empty_meta | Some m \<Rightarrow> m)\<rparr>
           | None \<Rightarrow> r)
      | _ \<Rightarrow> r)"

definition fetch_chunk_content :: "retriever_env \<Rightarrow> hit list \<Rightarrow> hit list" where
  "fetch_chunk_content env results =
     (if ids_to_fetch results = [] then results
      else map (add_content (batch_fetch_chunks env (ids_to_fetch results))) results)"

text \<open>
  \<^verbatim>\<open>result.get("combined_score") or result.get("vector_score") or 0\<close>: the first of the
  two that is present and non-zero, else 0. The key \<^verbatim>\<open>score\<close> is not consulted.
\<close>

definition processed_score :: "hit \<Rightarrow> real" where
  "processed_score r =
     (if truthy_num (h_combined_score r) then get0 (h_combined_score r)
      else if truthy_num (h_vector_score r) then get0 (h_vector_score r)
      else 0)"

text \<open>Removal of the redundant fields from the metadata dictionary.\<close>

definition clean_metadata :: "meta \<Rightarrow> meta" where
  "clean_metadata m = m\<lparr>m_document_id := None, m_chunk_index := None, m_id := None\<rparr>"

definition processed_metadata :: "hit \<Rightarrow> meta option" where
  "processed_metadata r =
     (let metadata0 = (case h_metadata r of None \<Rightarrow> empty_meta | Some m \<Rightarrow> m);
          metadata = (if \<not> meta_nonempty metadata0 \<and> h_payload r \<noteq> None then payload_of r
                      else metadata0)
      in if meta_nonempty metadata \<and> meta_nonempty (clean_metadata metadata)
         then Some (clean_metadata metadata) else None)"

definition process_result :: "hit \<Rightarrow> hit" where
  "process_result r =
     \<lparr>h_id = h_id r,
      h_document_id = h_document_id r,
      h_chunk_index = h_chunk_index r,
      h_score = Some (processed_score r),
      h_vector_score = None,
      h_keyword_score = None,
      h_combined_score = None,
      h_payload = None,
      h_content = h_content r,
      h_metadata = processed_metadata r\<rparr>"

definition process_results :: "hit list \<Rightarrow> hit list" where
  "process_results results = map process_result results"

text \<open>
  \<^verbatim>\<open>Retriever.retrieve\<close>. Writing the result to the cache and logging do not affect the
  returned value and are left out.
\<close>

definition retrieve ::
  "float_ops \<Rightarrow> retriever_env \<Rightarrow> string \<Rightarrow> int option \<Rightarrow> bool option \<Rightarrow> bool \<Rightarrow> string option
     \<Rightarrow> py_error + hit list" where
  "retrieve ops env query top_k use_hybrid include_content cache_key =
     (let top_k' = (case top_k of None \<Rightarrow> default_top_k env
                     | Some k \<Rightarrow> if k = 0 then default_top_k env else k);
          use_hybrid' = (case use_hybrid of None \<Rightarrow> hybrid_search_enabled env | Some b \<Rightarrow> b);
          cached_results =
            (if cache_enabled env \<and> truthy_str cache_key then cache_get env (the cache_key) else [])
      in if cached_results \<noteq> [] then Inr cached_results
         else case vector_search env query top_k' of
           Inl err \<Rightarrow> Inl err
         | Inr vector_results \<Rightarrow>
             (let results = (if use_hybrid'
                             then merge_results ops vector_results (keyword_search query top_k')
                             else vector_results);
                  results = (if reranking_enabled env \<and> length results > 1
                             then rerank_results query results else results);
                  results = (if include_content then fetch_chunk_content env results else results)
              in Inr (process_results results)))"

text \<open>
  A vector candidate (document, chunk, score) as the vector store hands it over: the
  score under \<^verbatim>\<open>score\<close>, the pair both at top level and in the payload.
\<close>

definition candidate :: "string \<Rightarrow> int \<Rightarrow> real \<Rightarrow> hit" where
  "candidate d c s = empty_hit\<lparr>h_document_id := Some d, h_chunk_index := Some c, h_score := Some s,
      h_payload := Some (empty_meta\<lparr>m_document_id := Some d, m_chunk_index := Some c\<rparr>)\<rparr>"

text \<open>An environment with the default flags, an empty cache and no stored contents.\<close>

definition test_env :: "hit list \<Rightarrow> retriever_env" where
  "test_env vector_results =
     \<lparr>default_top_k = 5, hybrid_search_enabled = True, reranking_enabled = False,
      cache_enabled = True, cache_get = (\<lambda>key. []),
      vector_search = (\<lambda>query top_k. Inr vector_results),
      batch_fetch_chunks = (\<lambda>ids key. None)\<rparr>"

section \<open>Reflection controller (reflection_engine.py)\<close>

subsection \<open>Text analysis\<close>

text \<open>
  \<^verbatim>\<open>_extract_key_terms\<close>: lower-case the text, take the maximal runs of word characters
  (\<^verbatim>\<open>re.findall(r'\w+', ...)\<close>), drop stop words and words of at most two characters.
  The model covers ASCII texts (\<open>ascii_text\<close>), on which a word character is a letter, a
  digit or the underscore and lower-casing maps \<^verbatim>\<open>A\<close>-\<^verbatim>\<open>Z\<close> to \<^verbatim>\<open>a\<close>-\<^verbatim>\<open>z\<close>; Python's
  treatment of other characters is not modelled.
\<close>

definition ascii_text :: "string \<Rightarrow> bool" where
  "ascii_text s \<longleftrightarrow> list_all (\<lambda>c. \<not> digit7 c) s"

definition lower_char :: "char \<Rightarrow> char" where
  "lower_char c =
     (case map_of (zip ''ABCDEFGHIJKLMNOPQRSTUVWXYZ'' ''abcdefghijklmnopqrstuvwxyz'') c of
        Some l \<Rightarrow> l | None \<Rightarrow> c)"

definition is_word_char :: "char \<Rightarrow> bool" where
  "is_word_char c \<longleftrightarrow>
     c \<in> set ''abcdefghijklmnopqrstuvwxyzABCDEFGHIJKLMNOPQRSTUVWXYZ0123456789_''"

fun find_words :: "string \<Rightarrow> string \<Rightarrow> string list" where
  "find_words cur [] = (if cur = [] then [] else [cur])"
| "find_words cur (c # cs) =
     (if is_word_char c then find_words (cur @ [c]) cs
      else (if cur = [] then [] else [cur]) @ find_words [] cs)"

definition stop_words :: "string list" where
  "stop_words =
     [''a'', ''an'', ''the'', ''and'', ''or'', ''but'', ''is'', ''are'', ''was'', ''were'',
      ''be'', ''been'', ''being'', ''to'', ''of'', ''for'', ''with'', ''by'', ''about'',
      ''against'', ''between'', ''into'', ''through'', ''during'', ''before'', ''after'',
      ''above'', ''below'', ''from'', ''up'', ''down'', ''in'', ''out'', ''on'', ''off'',
      ''over'', ''under'', ''again'', ''further'', ''then'', ''once'', ''here'', ''there'',
      ''when'', ''where'', ''why'', ''how'', ''all'', ''any'', ''both'', ''each'', ''few'',
      ''more'', ''most'', ''other'', ''some'', ''such'', ''no'', ''nor'', ''not'', ''only'',
      ''own'', ''same'', ''so'', ''than'', ''too'', ''very'', ''can'', ''will'', ''just'',
      ''should'', ''now'']"

definition extract_key_terms :: "string \<Rightarrow> string list" where
  "extract_key_terms text =
     filter (\<lambda>w. w \<notin> set stop_words \<and> length w > 2) (find_words [] (map lower_char text))"

subsection \<open>Configuration and result object\<close>

text \<open>
  The engine's configuration. \<open>pattern_topics\<close> stands for the two \<^verbatim>\<open>re.findall\<close> passes
  of \<^verbatim>\<open>_extract_query_topics\<close> followed by \<^verbatim>\<open>list(set(topics))\<close>: the regular-expression
  library and the iteration order of a Python set are outside the program.
\<close>

record reflection_config =
  enabled :: bool
  max_iterations :: int
  min_relevance_threshold :: real
  min_coverage_threshold :: real
  max_gap_queries :: int
  pattern_topics :: "string \<Rightarrow> string list"

text \<open>The defaults of the \<^verbatim>\<open>.get\<close> calls in \<^verbatim>\<open>__init__\<close>.\<close>

definition default_config :: "(string \<Rightarrow> string list) \<Rightarrow> reflection_config" where
  "default_config topics =
     \<lparr>enabled = True, max_iterations = 2, min_relevance_threshold = 0.6,
      min_coverage_threshold = 0.7, max_gap_queries = 3, pattern_topics = topics\<rparr>"

record retrieval_result =
  rr_query :: string
  rr_results :: "hit list"
  has_reflected :: bool
  reflection_queries :: "string list"
  reflection_results :: "hit list list"
  knowledge_gaps :: "string list"
  has_sufficient_info :: bool
  relevance_score :: real
  coverage_score :: real
  ranked_chunks :: "hit list"

text \<open>The dataclass defaults, with \<^verbatim>\<open>__post_init__\<close> applied.\<close>

definition new_result :: "string \<Rightarrow> hit list \<Rightarrow> retrieval_result" where
  "new_result query results =
     \<lparr>rr_query = query, rr_results = results, has_reflected = False, reflection_queries = [],
      reflection_results = [], knowledge_gaps = [], has_sufficient_info = False,
      relevance_score = 0, coverage_score = 0, ranked_chunks = []\<rparr>"

text \<open>Python's \<^verbatim>\<open>xs[:n]\<close> for an int \<open>n\<close>: a negative \<open>n\<close> counts from the end.\<close>

definition py_take :: "int \<Rightarrow> 'a list \<Rightarrow> 'a list" where
  "py_take n xs = (if n \<ge> 0 then take (nat n) xs else take (length xs - nat (- n)) xs)"

subsection \<open>Analysis\<close>

definition extract_query_topics :: "reflection_config \<Rightarrow> string \<Rightarrow> string list" where
  "extract_query_topics cfg query =
     (let topics = pattern_topics cfg query
      in if topics = [] then take 3 (extract_key_terms query) else topics)"

text \<open>
  The relevance and the coverage are only compared with the two thresholds; their
  arithmetic is modelled without rounding.
\<close>

definition relevance_of :: "hit list \<Rightarrow> real" where
  "relevance_of results =
     (if results \<noteq> [] then
        (let avg_score = sum_list (map (\<lambda>r. get0 (h_score r)) results) / real (length results);
             count_factor = min (real (length results) / 5) 1
         in avg_score * 0.7 + count_factor * 0.3)
      else 0)"

text \<open>
  The loop \<^verbatim>\<open>for r in results: content = r.get("content", ""); result_terms.update(self._extract_key_terms(content))\<close>.
  The default \<^verbatim>\<open>""\<close> applies to an absent key only: a stored \<^verbatim>\<open>None\<close> is handed to
  \<^verbatim>\<open>_extract_key_terms\<close>, where \<^verbatim>\<open>text.lower()\<close> raises \<^verbatim>\<open>AttributeError\<close>. \<open>contents_of\<close>
  reads the texts in the order of the loop and stops at the first such result.
\<close>

definition content_of :: "hit \<Rightarrow> py_error + string" where
  "content_of r =
     (case h_content r of
        Absent \<Rightarrow> Inr []
      | StoredNone \<Rightarrow> Inl (PyError ''AttributeError'')
      | Text c \<Rightarrow> Inr c)"

fun contents_of :: "hit list \<Rightarrow> py_error + string list" where
  "contents_of [] = Inr []"
| "contents_of (r # rs) =
     (case content_of r of
        Inl err \<Rightarrow> Inl err
      | Inr c \<Rightarrow> (case contents_of rs of Inl err \<Rightarrow> Inl err | Inr cs \<Rightarrow> Inr (c # cs)))"

text \<open>
  The term overlap between the query and the texts of the results: the two Python sets
  are duplicate-free lists, their intersection the query terms that occur among the
  result terms.
\<close>

definition term_overlap :: "string \<Rightarrow> string list \<Rightarrow> real" where
  "term_overlap query texts =
     (let query_terms = remdups (extract_key_terms query);
          result_terms = concat (map extract_key_terms texts)
      in if query_terms \<noteq> []
         then real (length (filter (\<lambda>t. t \<in> set result_terms) query_terms)) /
              real (length query_terms)
         else 0)"

definition coverage_of :: "string \<Rightarrow> hit list \<Rightarrow> py_error + real" where
  "coverage_of query results =
     (if results \<noteq> [] then
        (case contents_of results of
           Inl err \<Rightarrow> Inl err
         | Inr texts \<Rightarrow>
             (let coverage = term_overlap query texts;
                  min_coverage = min (real (length results) / 10) 0.7
              in Inr (max coverage min_coverage)))
      else Inr 0)"

definition analyze_results ::
  "reflection_config \<Rightarrow> string \<Rightarrow> hit list \<Rightarrow> py_error + real \<times> real \<times> string list" where
  "analyze_results cfg query results =
     (let relevance = relevance_of results
      in case coverage_of query results of
           Inl err \<Rightarrow> Inl err
         | Inr coverage \<Rightarrow>
             (let gaps = (if relevance < min_relevance_threshold cfg \<or>
                             coverage < min_coverage_threshold cfg
                          then extract_query_topics cfg query else [])
              in Inr (relevance, coverage, gaps)))"

subsection \<open>Follow-up queries\<close>

definition generate_follow_up_queries :: "reflection_config \<Rightarrow> string \<Rightarrow> string list \<Rightarrow> string list" where
  "generate_follow_up_queries cfg original_query gaps =
     (let targeted = map (\<lambda>gap. original_query @ '' regarding '' @ gap)
                         (filter (\<lambda>gap. \<not> length gap \<le> 3) gaps);
          follow_up_queries =
            (if targeted = [] then
               [''more details about '' @ original_query,
                ''additional information on '' @ original_query,
                ''extended explanation of '' @ original_query]
             else targeted);
          unique_queries = dict_fromkeys follow_up_queries
      in py_take (max_gap_queries cfg) unique_queries)"

subsection \<open>Merging and ranking\<close>

datatype source = Initial | Reflection nat

text \<open>
  An entry of \<^verbatim>\<open>all_results\<close>: the copied result with the bookkeeping keys \<^verbatim>\<open>source\<close>,
  \<^verbatim>\<open>queries\<close> and \<^verbatim>\<open>reflection_score\<close> (absent on an initial entry that no follow-up
  returned).
\<close>

record entry =
  e_result :: hit
  e_source :: source
  e_queries :: "string list"
  e_reflection_score :: "real option"

text \<open>\<^verbatim>\<open>f"{result.get('document_id')}:{result.get('chunk_index')}"\<close>\<close>

definition result_key :: "hit \<Rightarrow> string" where
  "result_key r =
     (case h_document_id r of None \<Rightarrow> ''None'' | Some d \<Rightarrow> d) @ '':'' @
     (case h_chunk_index r of None \<Rightarrow> ''None'' | Some c \<Rightarrow> py_str_int c)"

fun add_initial :: "string \<Rightarrow> hit list \<Rightarrow> (string \<times> entry) list \<Rightarrow> (string \<times> entry) list" where
  "add_initial original_query [] all_results = all_results"
| "add_initial original_query (r # rs) all_results =
     (if map_of all_results (result_key r) = None
      then add_initial original_query rs
             (AList.update (result_key r)
                \<lparr>e_result = r, e_source = Initial, e_queries = [original_query],
                 e_reflection_score = None\<rparr> all_results)
      else add_initial original_query rs all_results)"

definition add_reflection_result :: "nat \<Rightarrow> string \<Rightarrow> hit \<Rightarrow> (string \<times> entry) list \<Rightarrow> (string \<times> entry) list" where
  "add_reflection_result i query r all_results =
     (case map_of all_results (result_key r) of
        Some e \<Rightarrow>
          AList.update (result_key r)
            (e\<lparr>e_reflection_score := Some (max (get0 (e_reflection_score e)) (get0 (h_score r))),
               e_queries := e_queries e @ [query]\<rparr>) all_results
      | None \<Rightarrow>
          AList.update (result_key r)
            \<lparr>e_result = r, e_source = Reflection (i + 1), e_queries = [query],
             e_reflection_score = Some (get0 (h_score r))\<rparr> all_results)"

fun add_query_results :: "nat \<Rightarrow> string \<Rightarrow> hit list \<Rightarrow> (string \<times> entry) list \<Rightarrow> (string \<times> entry) list" where
  "add_query_results i query [] all_results = all_results"
| "add_query_results i query (r # rs) all_results =
     add_query_results i query rs (add_reflection_result i query r all_results)"

text \<open>The loop over \<^verbatim>\<open>enumerate(zip(reflection_results, reflection_queries))\<close>.\<close>

fun add_reflections :: "nat \<Rightarrow> (hit list \<times> string) list \<Rightarrow> (string \<times> entry) list \<Rightarrow> (string \<times> entry) list" where
  "add_reflections i [] all_results = all_results"
| "add_reflections i ((query_results, query) # rest) all_results =
     add_reflections (i + 1) rest (add_query_results i query query_results all_results)"

text \<open>\<^verbatim>\<open>final_score = base_score + query_bonus + initial_bonus\<close>, added from left to right.\<close>

definition final_score :: "float_ops \<Rightarrow> entry \<Rightarrow> real" where
  "final_score ops e =
     (let base_score = (if e_source e \<noteq> Initial then get0 (e_reflection_score e)
                        else get0 (h_score (e_result e)));
          query_bonus = min (fmul ops (real (length (e_queries e))) (lit ops 0.05)) (lit ops 0.15);
          initial_bonus = (if e_source e = Initial then lit ops 0.1 else 0)
      in fadd ops (fadd ops base_score query_bonus) initial_bonus)"

text \<open>
  Removal of the bookkeeping keys: what is left is the copied result with \<^verbatim>\<open>score\<close>
  replaced by the final score.
\<close>

definition strip_entry :: "float_ops \<Rightarrow> entry \<Rightarrow> hit" where
  "strip_entry ops e = (e_result e)\<lparr>h_score := Some (final_score ops e)\<rparr>"

definition all_results_dict :: "string \<Rightarrow> hit list \<Rightarrow> hit list list \<Rightarrow> string list \<Rightarrow> (string \<times> entry) list" where
  "all_results_dict original_query initial_results query_result_sets queries =
     add_reflections 0 (zip query_result_sets queries)
       (add_initial original_query initial_results [])"

text \<open>
  \<^verbatim>\<open>merged_results.sort(key=lambda x: x.get("final_score", 0), reverse=True)\<close>, the stable
  sort on the negated key, followed by the clean-up loop.
\<close>

definition merge_and_rank_results ::
  "float_ops \<Rightarrow> string \<Rightarrow> hit list \<Rightarrow> hit list list \<Rightarrow> string list \<Rightarrow> hit list" where
  "merge_and_rank_results ops original_query initial_results query_result_sets queries =
     map (strip_entry ops)
       (sort_key (\<lambda>e. - final_score ops e)
          (map snd (all_results_dict original_query initial_results query_result_sets
                      queries)))"

subsection \<open>reflect\<close>

text \<open>
  The follow-up retrieval: \<^verbatim>\<open>retriever.retrieve(query=q, top_k=5, cache_key=f"reflection:{q}")\<close>.
\<close>

definition follow_up_retrieve :: "float_ops \<Rightarrow> retriever_env \<Rightarrow> string \<Rightarrow> py_error + hit list" where
  "follow_up_retrieve ops env q =
     retrieve ops env q (Some 5) None True (Some (''reflection:'' @ q))"

text \<open>
  The loop that executes the follow-up queries. There is no handler around the call:
  an exception raised by a retrieval leaves the loop.
\<close>

fun run_follow_ups ::
  "float_ops \<Rightarrow> retriever_env \<Rightarrow> string list \<Rightarrow> hit list list \<Rightarrow> py_error + hit list list" where
  "run_follow_ups ops env [] result_sets = Inr result_sets"
| "run_follow_ups ops env (q # qs) result_sets =
     (case follow_up_retrieve ops env q of
        Inl err \<Rightarrow> Inl err
      | Inr additional_results \<Rightarrow> run_follow_ups ops env qs (result_sets @ [additional_results]))"

text \<open>
  \<^verbatim>\<open>reflect\<close>. An exception raised by the analysis or by a follow-up retrieval is the
  outcome of the call.
\<close>

definition reflect ::
  "float_ops \<Rightarrow> reflection_config \<Rightarrow> retriever_env \<Rightarrow> string \<Rightarrow> hit list
     \<Rightarrow> py_error + retrieval_result" where
  "reflect ops cfg env query initial_results =
     (let result = new_result query initial_results
      in if \<not> enabled cfg \<or> initial_results = [] then
           Inr (result\<lparr>has_sufficient_info := length initial_results > 0,
                       relevance_score := (if initial_results \<noteq> [] then 0.7 else 0),
                       coverage_score := (if initial_results \<noteq> [] then 0.7 else 0),
                       ranked_chunks := initial_results\<rparr>)
         else
           (case analyze_results cfg query initial_results of
              Inl err \<Rightarrow> Inl err
            | Inr (relevance, coverage, gaps) \<Rightarrow>
                (let result = result\<lparr>relevance_score := relevance, coverage_score := coverage,
                                     knowledge_gaps := gaps\<rparr>
                 in if relevance \<ge> min_relevance_threshold cfg \<and> coverage \<ge> min_coverage_threshold cfg
                    then Inr (result\<lparr>has_sufficient_info := True, ranked_chunks := initial_results\<rparr>)
                    else
                      (let result = result\<lparr>has_reflected := True\<rparr>;
                           follow_up_queries0 = generate_follow_up_queries cfg query gaps;
                           result = result\<lparr>reflection_queries := follow_up_queries0\<rparr>;
                           follow_up_queries =
                             (if int (length follow_up_queries0) > max_gap_queries cfg
                              then py_take (max_gap_queries cfg) follow_up_queries0
                              else follow_up_queries0)
                       in case run_follow_ups ops env follow_up_queries [] of
                            Inl err \<Rightarrow> Inl err
                          | Inr result_sets \<Rightarrow>
                              Inr (result\<lparr>reflection_results := result_sets,
                                          ranked_chunks :=
                                            merge_and_rank_results ops query initial_results
                                              result_sets follow_up_queries,
                                          has_sufficient_info := True\<rparr>)))))"

text \<open>A result dictionary as the retriever returns it, for examples.\<close>

definition res :: "string \<Rightarrow> int \<Rightarrow> real \<Rightarrow> string \<Rightarrow> hit" where
  "res d c s text = empty_hit\<lparr>h_document_id := Some d, h_chunk_index := Some c, h_score := Some s,
      h_content := Text text\<rparr>"

text \<open>A retriever whose vector store is unavailable: every search raises.\<close>

definition failing_env :: retriever_env where
  "failing_env = (test_env [])\<lparr>vector_search := (\<lambda>query top_k. Inl (PyError ''unavailable''))\<rparr>"



text \<open>The texts of the results are ASCII.\<close>

definition ascii_contents :: "hit list \<Rightarrow> bool" where
  "ascii_contents results \<longleftrightarrow>
     list_all (\<lambda>r. case h_content r of Text c \<Rightarrow> ascii_text c | _ \<Rightarrow> True) results"

text \<open>Five and seven results that all score 0.9, on distinct chunks, with empty content.\<close>

definition five_good :: "hit list" where
  "five_good = [res ''d1'' 0 0.9 [], res ''d1'' 1 0.9 [], res ''d1'' 2 0.9 [],
                res ''d1'' 3 0.9 [], res ''d1'' 4 0.9 []]"

definition seven_good :: "hit list" where
  "seven_good = five_good @ [res ''d1'' 5 0.9 [], res ''d1'' 6 0.9 []]"

text \<open>Five results that score 0.9 and whose content shares the term of the query \<^verbatim>\<open>quantum\<close>.\<close>

definition five_matching :: "hit list" where
  "five_matching = map (\<lambda>c. res ''d1'' c 0.9 ''Quantum theory'') [0, 1, 2, 3, 4]"

text \<open>
  Vocabulary for the merge: the follow-up hits in processing order, each with the index
  and the text of its query; the hits among them stored under a key; and the final score
  of a key as the code computes it. An entry first seen among the initial results has
  its own score as base and receives 0.10; the query bonus is 0.05 for every query on
  its list, the original query included, capped at 0.15. An entry first seen in a
  follow-up has the maximum of its follow-up scores as base and 0 as initial bonus.
\<close>

fun follow_up_hits :: "nat \<Rightarrow> (hit list \<times> string) list \<Rightarrow> (nat \<times> string \<times> hit) list" where
  "follow_up_hits i [] = []"
| "follow_up_hits i ((query_results, query) # rest) =
     map (\<lambda>r. (i, query, r)) query_results @ follow_up_hits (i + 1) rest"

definition hits_for :: "string \<Rightarrow> (nat \<times> string \<times> hit) list \<Rightarrow> (nat \<times> string \<times> hit) list" where
  "hits_for k ts = filter (\<lambda>t. result_key (snd (snd t)) = k) ts"

definition expected_final ::
  "float_ops \<Rightarrow> hit list \<Rightarrow> (nat \<times> string \<times> hit) list \<Rightarrow> string \<Rightarrow> real" where
  "expected_final ops initial_results ts k =
     (let n = length (hits_for k ts)
      in case find (\<lambda>r. result_key r = k) initial_results of
           Some r0 \<Rightarrow>
             fadd ops (fadd ops (get0 (h_score r0))
                                (min (fmul ops (real (1 + n)) (lit ops 0.05)) (lit ops 0.15)))
                      (lit ops 0.1)
         | None \<Rightarrow>
             fadd ops (fadd ops (Max (set (map (\<lambda>t. get0 (h_score (snd (snd t)))) (hits_for k ts))))
                                (min (fmul ops (real n) (lit ops 0.05)) (lit ops 0.15)))
                      0)"

text \<open>The keys in the order in which the dictionary \<^verbatim>\<open>all_results\<close> lists them: by first
  occurrence among the initial results followed by the follow-up hits.\<close>

definition all_keys :: "hit list \<Rightarrow> (nat \<times> string \<times> hit) list \<Rightarrow> string list" where
  "all_keys initial_results ts =
     dict_fromkeys (map result_key (initial_results @ map (\<lambda>t. snd (snd t)) ts))"

text \<open>The result that an output entry is a copy of: the first one stored under the key.\<close>

definition first_result :: "hit list \<Rightarrow> (nat \<times> string \<times> hit) list \<Rightarrow> string \<Rightarrow> hit option" where
  "first_result initial_results ts k =
     find (\<lambda>r. result_key r = k) (initial_results @ map (\<lambda>t. snd (snd t)) ts)"

text \<open>The effect of later follow-up hits on an entry, and the entry a first hit creates.\<close>

definition bump_entry :: "(nat \<times> string \<times> hit) \<Rightarrow> entry \<Rightarrow> entry" where
  "bump_entry t e =
     e\<lparr>e_reflection_score := Some (max (get0 (e_reflection_score e)) (get0 (h_score (snd (snd t))))),
       e_queries := e_queries e @ [fst (snd t)]\<rparr>"

definition fresh_entry :: "(nat \<times> string \<times> hit) \<Rightarrow> entry" where
  "fresh_entry t =
     \<lparr>e_result = snd (snd t), e_source = Reflection (fst t + 1), e_queries = [fst (snd t)],
      e_reflection_score = Some (get0 (h_score (snd (snd t))))\<rparr>"

definition initial_entry :: "string \<Rightarrow> hit \<Rightarrow> entry" where
  "initial_entry original_query r =
     \<lparr>e_result = r, e_source = Initial, e_queries = [original_query], e_reflection_score = None\<rparr>"

section \<open>Text segmenter (document_processor.py)\<close>

subsection \<open>Python string primitives\<close>

text \<open>
  Slice bounds: a negative index counts from the end, and the result is clamped to the
  string, as \<^verbatim>\<open>text[start:end]\<close> and the optional arguments of \<^verbatim>\<open>str.rfind\<close> do.
\<close>

definition py_clamp :: "nat \<Rightarrow> int \<Rightarrow> int" where
  "py_clamp n i = (if i < 0 then max 0 (i + int n) else min i (int n))"

definition py_slice :: "string \<Rightarrow> int \<Rightarrow> int \<Rightarrow> string" where
  "py_slice text start end =
     (let s = py_clamp (length text) start; e = py_clamp (length text) end
      in take (nat (e - s)) (drop (nat s) text))"

text \<open>
  \<^verbatim>\<open>text.rfind(sub, start, end)\<close>: the highest index at which \<open>sub\<close> occurs inside the
  slice, or -1.
\<close>

definition py_rfind :: "string \<Rightarrow> string \<Rightarrow> int \<Rightarrow> int \<Rightarrow> int" where
  "py_rfind text sub start end =
     (let s = py_clamp (length text) start; e = py_clamp (length text) end;
          found = filter (\<lambda>i. take (length sub) (drop (nat i) text) = sub)
                         [s..e - int (length sub)]
      in if found = [] then - 1 else last found)"

text \<open>White space as \<^verbatim>\<open>str.strip()\<close> and the pattern \<^verbatim>\<open>\s\<close> see it, on ASCII text.\<close>

definition is_space :: "char \<Rightarrow> bool" where
  "is_space c \<longleftrightarrow>
     c \<in> set [CHR '' '', CHR 0x09, CHR 0x0A, CHR 0x0B, CHR 0x0C, CHR 0x0D,
               CHR 0x1C, CHR 0x1D, CHR 0x1E, CHR 0x1F]"

definition py_strip :: "string \<Rightarrow> string" where
  "py_strip s = rev (dropWhile is_space (rev (dropWhile is_space s)))"

text \<open>\<^verbatim>\<open>"\n\n".join(parts)\<close>\<close>

fun join_paragraphs :: "string list \<Rightarrow> string" where
  "join_paragraphs [] = []"
| "join_paragraphs [p] = p"
| "join_paragraphs (p # ps) = p @ [CHR 0x0A, CHR 0x0A] @ join_paragraphs ps"

text \<open>
  \<^verbatim>\<open>re.split(r'\n\s*\n', text)\<close>: a separator starts at a newline that is followed, after
  white space only, by another newline, and extends to the last newline of that white
  space run (the star is greedy). \<open>separator_rest\<close> is the length of the separator after
  its first character.
\<close>

definition separator_rest :: "string \<Rightarrow> nat" where
  "separator_rest cs =
     (let run = takeWhile is_space cs
      in length run - length (takeWhile (\<lambda>x. x \<noteq> CHR 0x0A) (rev run)))"

function split_paragraphs :: "string \<Rightarrow> string \<Rightarrow> string list" where
  "split_paragraphs cur [] = [cur]"
| "split_paragraphs cur (c # cs) =
     (if c = CHR 0x0A \<and> CHR 0x0A \<in> set (takeWhile is_space cs)
      then cur # split_paragraphs [] (drop (separator_rest cs) cs)
      else split_paragraphs (cur @ [c]) cs)"
  by pat_completeness auto
termination
  by (relation "measure (\<lambda>(cur, text). length text)") auto

subsection \<open>Fixed-size chunks\<close>

record chunk =
  ch_text :: string
  start_char :: int
  end_char :: int

text \<open>
  The end of the window that starts at \<open>start\<close>: the hard cut at \<open>start + chunk_size\<close>,
  moved back to just after the last full stop followed by a space if that lies beyond
  the middle of the window; the end of the text when the window reaches it.
\<close>

definition window_end :: "string \<Rightarrow> int \<Rightarrow> int \<Rightarrow> int" where
  "window_end text chunk_size start =
     (let end = start + chunk_size
      in if end < int (length text)
         then (let sentence_end = py_rfind text ''. '' start end + 1
               in if sentence_end > start + chunk_size div 2 then sentence_end else end)
         else int (length text))"

definition make_chunk :: "string \<Rightarrow> int \<Rightarrow> int \<Rightarrow> chunk" where
  "make_chunk text start end =
     \<lparr>ch_text = py_slice text start end, start_char = start, end_char = end\<rparr>"

text \<open>
  The \<^verbatim>\<open>while start < len(text)\<close> loop. It need not terminate (the next start is
  \<open>end - chunk_overlap\<close>, which may fail to advance), so it is a partial function: \<open>None\<close>
  is a loop that never returns.
\<close>

partial_function (option) fixed_loop ::
  "string \<Rightarrow> int \<Rightarrow> int \<Rightarrow> int \<Rightarrow> chunk list \<Rightarrow> chunk list option" where
  "fixed_loop text chunk_size chunk_overlap start chunks =
     (if start < int (length text) then
        (if window_end text chunk_size start - chunk_overlap + chunk_size > int (length text) \<and>
            int (length text) - (window_end text chunk_size start - chunk_overlap) < chunk_size div 2
         then Some (chunks @ [make_chunk text start (window_end text chunk_size start)])
         else fixed_loop text chunk_size chunk_overlap
                (window_end text chunk_size start - chunk_overlap)
                (chunks @ [make_chunk text start (window_end text chunk_size start)]))
      else Some chunks)"

definition create_fixed_chunks :: "string \<Rightarrow> int \<Rightarrow> int \<Rightarrow> chunk list option" where
  "create_fixed_chunks text chunk_size chunk_overlap =
     (if int (length text) \<le> chunk_size
      then Some [\<lparr>ch_text = text, start_char = 0, end_char = int (length text)\<rparr>]
      else fixed_loop text chunk_size chunk_overlap 0 [])"

subsection \<open>Adaptive chunks\<close>

record adaptive_state =
  a_chunks :: "chunk list"
  current_chunk :: "string list"
  current_size :: int
  current_start :: int

text \<open>Flushing the buffer when the next paragraph would exceed the chunk size.\<close>

definition flush_buffer :: "adaptive_state \<Rightarrow> adaptive_state" where
  "flush_buffer st =
     (let chunk_text = join_paragraphs (current_chunk st);
          overlap_start = max 0 (int (length (current_chunk st)) - 2);
          kept = drop (nat overlap_start) (current_chunk st);
          kept_size = sum_list (map (\<lambda>p. int (length p)) kept) + int (length kept) - 1
      in \<lparr>a_chunks = a_chunks st @
             [\<lparr>ch_text = chunk_text, start_char = current_start st,
               end_char = current_start st + int (length chunk_text)\<rparr>],
          current_chunk = kept,
          current_size = kept_size,
          current_start = current_start st + int (length chunk_text) - kept_size\<rparr>)"

text \<open>One round of the loop over the paragraphs.\<close>

definition adaptive_step :: "int \<Rightarrow> int \<Rightarrow> adaptive_state \<Rightarrow> string \<Rightarrow> adaptive_state option" where
  "adaptive_step chunk_size chunk_overlap st raw_paragraph =
     (let paragraph = py_strip raw_paragraph
      in if paragraph = [] then Some st
         else
           (let paragraph_size = int (length paragraph);
                st1 = (if current_size st + paragraph_size > chunk_size \<and> current_size st > 0
                       then flush_buffer st else st);
                st2 = st1\<lparr>current_chunk := current_chunk st1 @ [paragraph],
                          current_size := current_size st1 + paragraph_size + 2\<rparr>
            in if paragraph_size > chunk_size
               then (case create_fixed_chunks paragraph chunk_size chunk_overlap of
                       None \<Rightarrow> None
                     | Some para_chunks \<Rightarrow>
                         Some \<lparr>a_chunks = a_chunks st2 @
                                 map (\<lambda>c. \<lparr>ch_text = ch_text c,
                                            start_char = current_start st2 + start_char c,
                                            end_char = current_start st2 + end_char c\<rparr>)
                                     (drop 1 para_chunks),
                               current_chunk = [], current_size = 0,
                               current_start = current_start st2 + paragraph_size\<rparr>)
               else Some st2))"

fun adaptive_loop :: "int \<Rightarrow> int \<Rightarrow> adaptive_state \<Rightarrow> string list \<Rightarrow> adaptive_state option" where
  "adaptive_loop chunk_size chunk_overlap st [] = Some st"
| "adaptive_loop chunk_size chunk_overlap st (p # ps) =
     (case adaptive_step chunk_size chunk_overlap st p of
        None \<Rightarrow> None
      | Some st' \<Rightarrow> adaptive_loop chunk_size chunk_overlap st' ps)"

definition create_adaptive_chunks :: "string \<Rightarrow> int \<Rightarrow> int \<Rightarrow> chunk list option" where
  "create_adaptive_chunks text chunk_size chunk_overlap =
     (case adaptive_loop chunk_size chunk_overlap
             \<lparr>a_chunks = [], current_chunk = [], current_size = 0, current_start = 0\<rparr>
             (split_paragraphs [] text) of
        None \<Rightarrow> None
      | Some st \<Rightarrow>
          Some (if current_chunk st \<noteq> []
                then a_chunks st @
                     [\<lparr>ch_text = join_paragraphs (current_chunk st),
                       start_char = current_start st,
                       end_char = current_start st + int (length (join_paragraphs (current_chunk st)))\<rparr>]
                else a_chunks st))"

definition create_chunks :: "string \<Rightarrow> int \<Rightarrow> int \<Rightarrow> bool \<Rightarrow> chunk list option" where
  "create_chunks text chunk_size chunk_overlap adaptive =
     (if adaptive then create_adaptive_chunks text chunk_size chunk_overlap
      else create_fixed_chunks text chunk_size chunk_overlap)"

declare fixed_loop.simps [code]

text \<open>
  What the loop maintains about the chunks emitted so far: start offsets do not
  decrease, every chunk is a non-empty span of the text that carries the text of its
  span, the last chunk starts last, and the spans cover everything before the end of
  the last chunk.
\<close>

definition chunks_ok :: "string \<Rightarrow> chunk list \<Rightarrow> bool" where
  "chunks_ok text chunks \<longleftrightarrow>
     sorted_wrt (\<lambda>a b. start_char a \<le> start_char b) chunks \<and>
     (\<forall>c \<in> set chunks. 0 \<le> start_char c \<and> start_char c < end_char c \<and>
          end_char c \<le> int (length text) \<and>
          ch_text c = py_slice text (start_char c) (end_char c)) \<and>
     (\<forall>c \<in> set chunks. start_char c \<le> start_char (last chunks)) \<and>
     (\<forall>i. 0 \<le> i \<and> i < end_char (last chunks) \<longrightarrow>
          (\<exists>c \<in> set chunks. start_char c \<le> i \<and> i < end_char c))"

section \<open>Memory hierarchy manager (memory_manager.py)\<close>

subsection \<open>The table of memory items\<close>

text \<open>
  A row of the table \<^verbatim>\<open>memory_items\<close>. Times are seconds on an integer clock. The
  embedding and the metadata column are carried along unchanged by every statement of
  the manager and are left out.
\<close>

record memory_item =
  mi_id :: int
  mi_user_id :: "int option"
  mi_conversation_id :: "string option"
  mi_content :: string
  mi_memory_type :: string
  mi_importance :: real
  mi_access_count :: int
  mi_created_at :: int
  mi_last_accessed_at :: int
  mi_expires_at :: "int option"

record memory_store =
  rows :: "memory_item list"
  next_id :: int

text \<open>
  The manager's settings (the defaults of the \<^verbatim>\<open>.get\<close> calls in \<^verbatim>\<open>__init__\<close> are 3600 and
  50, 86400 and 200, 0.7 and 1000) and the library functions it relies on:
  \<^verbatim>\<open>uuid.UUID\<close> (\<open>None\<close> for a \<^verbatim>\<open>ValueError\<close>), and the trigram operator \<^verbatim>\<open>%\<close> and function
  \<^verbatim>\<open>similarity\<close> of the database.
\<close>

record memory_config =
  working_memory_ttl :: int
  working_memory_max_items :: int
  short_term_memory_ttl :: int
  short_term_memory_max_items :: int
  long_term_memory_threshold :: real
  long_term_memory_max_items :: int
  parse_uuid :: "string \<Rightarrow> string option"
  similar :: "string \<Rightarrow> string \<Rightarrow> bool"
  similarity :: "string \<Rightarrow> string \<Rightarrow> real"

definition default_memory_config :: memory_config where
  "default_memory_config =
     \<lparr>working_memory_ttl = 3600, working_memory_max_items = 50,
      short_term_memory_ttl = 86400, short_term_memory_max_items = 200,
      long_term_memory_threshold = 0.7, long_term_memory_max_items = 1000,
      parse_uuid = (\<lambda>s. Some s), similar = (\<lambda>content query. True),
      similarity = (\<lambda>content query. 1)\<rparr>"

text \<open>Truthiness of an optional int (\<^verbatim>\<open>if user_id:\<close>): \<^verbatim>\<open>None\<close> and 0 are falsy.\<close>

definition truthy_int :: "int option \<Rightarrow> bool" where
  "truthy_int x = (case x of None \<Rightarrow> False | Some i \<Rightarrow> i \<noteq> 0)"

subsection \<open>Pruning\<close>

text \<open>The limit for a memory type; \<open>None\<close> for a type that is not one of the three.\<close>

definition max_items_of :: "memory_config \<Rightarrow> string \<Rightarrow> int option" where
  "max_items_of cfg memory_type =
     (if memory_type = ''working'' then Some (working_memory_max_items cfg)
      else if memory_type = ''short_term'' then Some (short_term_memory_max_items cfg)
      else if memory_type = ''long_term'' then Some (long_term_memory_max_items cfg)
      else None)"

text \<open>
  The \<^verbatim>\<open>WHERE\<close> clause of the two statements of \<^verbatim>\<open>_prune_memory\<close>: the memory type, and
  the user only when \<^verbatim>\<open>user_id\<close> is truthy. A row without user never equals a given user.
\<close>

definition in_scope :: "string \<Rightarrow> int option \<Rightarrow> memory_item \<Rightarrow> bool" where
  "in_scope memory_type user_id r \<longleftrightarrow>
     mi_memory_type r = memory_type \<and>
     (if truthy_int user_id then mi_user_id r = user_id else True)"

text \<open>\<^verbatim>\<open>ORDER BY importance ASC, last_accessed_at ASC, created_at ASC\<close>: the sort key.\<close>

definition prune_key :: "memory_item \<Rightarrow> real \<times> int \<times> int" where
  "prune_key r = (mi_importance r, mi_last_accessed_at r, mi_created_at r)"

text \<open>
  Modelled from the spec: the relational store that executes the statements is not part
  of the sources; this is the effect of the \<^verbatim>\<open>DELETE ... WHERE id IN (SELECT id ... ORDER BY
  ... LIMIT excess)\<close> statement on the table. Where the three sort columns tie, the
  database may pick any of the tied rows; the model picks them in table order.
\<close>

definition delete_lowest :: "string \<Rightarrow> int option \<Rightarrow> nat \<Rightarrow> memory_item list \<Rightarrow> memory_item list" where
  "delete_lowest memory_type user_id excess table =
     (let ids = map mi_id (take excess (sort_key prune_key (filter (in_scope memory_type user_id) table)))
      in filter (\<lambda>r. mi_id r \<notin> set ids) table)"

definition prune_memory :: "memory_config \<Rightarrow> string \<Rightarrow> int option \<Rightarrow> memory_item list \<Rightarrow> memory_item list" where
  "prune_memory cfg memory_type user_id table =
     (case max_items_of cfg memory_type of
        None \<Rightarrow> table
      | Some max_items \<Rightarrow>
          if max_items \<le> 0 then table
          else
            (let count = int (length (filter (in_scope memory_type user_id) table))
             in if count > max_items
                then delete_lowest memory_type user_id (nat (count - max_items)) table
                else table))"

subsection \<open>Adding\<close>

record added_item =
  ai_id :: int
  ai_content :: string
  ai_memory_type :: string
  ai_importance :: real
  ai_created_at :: int

text \<open>
  \<^verbatim>\<open>add_to_memory\<close> at time \<open>now\<close>. Modelled from the spec: the \<^verbatim>\<open>INSERT\<close> assigns the next
  id and the column defaults (creation and last access at the time of insertion, access
  count 0). The mirror of working items in the cache does not touch the table and is
  left out.
\<close>

definition add_to_memory ::
  "memory_config \<Rightarrow> int \<Rightarrow> string \<Rightarrow> string \<Rightarrow> int option \<Rightarrow> string option \<Rightarrow> real
     \<Rightarrow> memory_store \<Rightarrow> added_item option \<times> memory_store" where
  "add_to_memory cfg now content memory_type user_id conversation_id importance store =
     (if py_strip content = [] then (None, store)
      else
        (let memory_type' = (if memory_type \<notin> set [''working'', ''short_term'', ''long_term'']
                             then ''working'' else memory_type);
             expires_at = (if memory_type' = ''working'' then Some (now + working_memory_ttl cfg)
                           else if memory_type' = ''short_term'' then Some (now + short_term_memory_ttl cfg)
                           else None);
             conv_id = (if truthy_str conversation_id then parse_uuid cfg (the conversation_id)
                        else None);
             row = \<lparr>mi_id = next_id store, mi_user_id = user_id, mi_conversation_id = conv_id,
                    mi_content = content, mi_memory_type = memory_type', mi_importance = importance,
                    mi_access_count = 0, mi_created_at = now, mi_last_accessed_at = now,
                    mi_expires_at = expires_at\<rparr>;
             table = rows store @ [row]
         in (Some \<lparr>ai_id = next_id store, ai_content = content, ai_memory_type = memory_type',
                    ai_importance = importance, ai_created_at = now\<rparr>,
             \<lparr>rows = prune_memory cfg memory_type' user_id table, next_id = next_id store + 1\<rparr>)))"

subsection \<open>Reading\<close>

text \<open>
  The conditions that \<^verbatim>\<open>_semantic_memory_search\<close> and \<^verbatim>\<open>_get_recent_memory\<close> collect, in
  the same way: the memory type, the user and the conversation only when the argument
  is truthy (and the conversation id parses), the importance only when
  \<^verbatim>\<open>min_importance > 0\<close>, and always that the row has not expired.
\<close>

definition where_clause ::
  "memory_config \<Rightarrow> int \<Rightarrow> string option \<Rightarrow> int option \<Rightarrow> string option \<Rightarrow> real
     \<Rightarrow> memory_item \<Rightarrow> bool" where
  "where_clause cfg now memory_type user_id conversation_id min_importance r \<longleftrightarrow>
     (if truthy_str memory_type then mi_memory_type r = the memory_type else True) \<and>
     (if truthy_int user_id then mi_user_id r = user_id else True) \<and>
     (if truthy_str conversation_id
      then (case parse_uuid cfg (the conversation_id) of
              Some conv_id \<Rightarrow> mi_conversation_id r = Some conv_id
            | None \<Rightarrow> True)
      else True) \<and>
     (if min_importance > 0 then mi_importance r \<ge> min_importance else True) \<and>
     (case mi_expires_at r of None \<Rightarrow> True | Some t \<Rightarrow> t > now)"

text \<open>An item as the two reading functions format it.\<close>

record read_item =
  it_id :: int
  it_memory_type :: string
  it_importance :: real
  it_access_count :: int
  it_created_at :: int
  it_last_accessed_at :: int
  it_content :: "string option"
  it_user_id :: "int option"
  it_conversation_id :: "string option"
  it_relevance :: "real option"

definition format_item :: "bool \<Rightarrow> real option \<Rightarrow> memory_item \<Rightarrow> read_item" where
  "format_item include_content relevance r =
     \<lparr>it_id = mi_id r, it_memory_type = mi_memory_type r, it_importance = mi_importance r,
      it_access_count = mi_access_count r, it_created_at = mi_created_at r,
      it_last_accessed_at = mi_last_accessed_at r,
      it_content = (if include_content then Some (mi_content r) else None),
      it_user_id = (if truthy_int (mi_user_id r) then mi_user_id r else None),
      it_conversation_id = (if truthy_str (mi_conversation_id r) then mi_conversation_id r else None),
      it_relevance = relevance\<rparr>"

text \<open>\<^verbatim>\<open>_update_access_count\<close>: the \<^verbatim>\<open>UPDATE\<close> on the rows that were returned.\<close>

definition update_access_count :: "int \<Rightarrow> int list \<Rightarrow> memory_item list \<Rightarrow> memory_item list" where
  "update_access_count now memory_ids table =
     (if memory_ids = [] then table
      else map (\<lambda>r. if mi_id r \<in> set memory_ids
                      then r\<lparr>mi_access_count := mi_access_count r + 1, mi_last_accessed_at := now\<rparr>
                      else r) table)"

text \<open>
  Modelled from the spec: the \<^verbatim>\<open>SELECT\<close> statements as the store executes them, with a
  stable sort where \<^verbatim>\<open>ORDER BY\<close> leaves the order of tied rows open. A negative \<^verbatim>\<open>LIMIT\<close>
  is an error of the statement; the functions catch it and return the empty list.
\<close>

definition recent_order :: "memory_item \<Rightarrow> real \<times> int \<times> int" where
  "recent_order r = (- mi_importance r, - mi_last_accessed_at r, - mi_created_at r)"

definition semantic_order :: "memory_config \<Rightarrow> int \<Rightarrow> string \<Rightarrow> real \<Rightarrow> memory_item \<Rightarrow> real \<times> real" where
  "semantic_order cfg now query recency_weight r =
     (let days_old = real_of_int (now - mi_created_at r) / 86400
      in (- (similarity cfg (mi_content r) query * (1 - recency_weight) +
             (1 / (days_old + 1)) * recency_weight),
          - mi_importance r))"

definition get_recent_memory ::
  "memory_config \<Rightarrow> int \<Rightarrow> string option \<Rightarrow> int option \<Rightarrow> string option \<Rightarrow> int \<Rightarrow> real \<Rightarrow> bool
     \<Rightarrow> memory_store \<Rightarrow> read_item list \<times> memory_store" where
  "get_recent_memory cfg now memory_type user_id conversation_id limit min_importance
       include_content store =
     (if limit < 0 then ([], store)
      else
        (let results = take (nat limit)
               (sort_key recent_order
                  (filter (where_clause cfg now memory_type user_id conversation_id min_importance)
                     (rows store)))
         in (map (format_item include_content None) results,
             store\<lparr>rows := update_access_count now (map mi_id results) (rows store)\<rparr>)))"

definition semantic_memory_search ::
  "memory_config \<Rightarrow> int \<Rightarrow> string \<Rightarrow> string option \<Rightarrow> int option \<Rightarrow> string option \<Rightarrow> int \<Rightarrow> real
     \<Rightarrow> real \<Rightarrow> bool \<Rightarrow> memory_store \<Rightarrow> read_item list \<times> memory_store" where
  "semantic_memory_search cfg now query memory_type user_id conversation_id limit min_importance
       recency_weight include_content store =
     (if limit < 0 then ([], store)
      else
        (let results = take (nat limit)
               (sort_key (semantic_order cfg now query recency_weight)
                  (filter (\<lambda>r. where_clause cfg now memory_type user_id conversation_id
                                  min_importance r \<and> similar cfg (mi_content r) query)
                     (rows store)))
         in (map (\<lambda>r. format_item include_content (Some (similarity cfg (mi_content r) query)) r)
                 results,
             store\<lparr>rows := update_access_count now (map mi_id results) (rows store)\<rparr>)))"

definition get_memory ::
  "memory_config \<Rightarrow> int \<Rightarrow> string option \<Rightarrow> string option \<Rightarrow> int option \<Rightarrow> string option \<Rightarrow> int
     \<Rightarrow> real \<Rightarrow> real \<Rightarrow> bool \<Rightarrow> memory_store \<Rightarrow> read_item list \<times> memory_store" where
  "get_memory cfg now query memory_type user_id conversation_id limit min_importance
       recency_weight include_content store =
     (if truthy_str query \<and> length (py_strip (the query)) > 0
      then semantic_memory_search cfg now (the query) memory_type user_id conversation_id limit
             min_importance recency_weight include_content store
      else get_recent_memory cfg now memory_type user_id conversation_id limit min_importance
             include_content store)"

text \<open>A row for examples: id, user, memory type, importance, the two times; no expiry.\<close>

definition item :: "int \<Rightarrow> int option \<Rightarrow> string \<Rightarrow> real \<Rightarrow> int \<Rightarrow> int \<Rightarrow> memory_item" where
  "item i user_id memory_type importance created accessed =
     \<lparr>mi_id = i, mi_user_id = user_id, mi_conversation_id = None, mi_content = ''note'',
      mi_memory_type = memory_type, mi_importance = importance, mi_access_count = 0,
      mi_created_at = created, mi_last_accessed_at = accessed, mi_expires_at = None\<rparr>"

text \<open>The default settings with another limit for working memory, for examples.\<close>

definition config_with_working_limit :: "int \<Rightarrow> memory_config" where
  "config_with_working_limit n = default_memory_config\<lparr>working_memory_max_items := n\<rparr>"

section \<open>Properties of the hybrid merge\<close>

subsection \<open>The merge key determines the pair\<close>

text \<open>
  For a document id that is a string and a chunk index that is an int, the key
  \<^verbatim>\<open>f"{doc_id}:{chunk_index}"\<close> determines both: the rendering of an int has no colon and
  is injective, so the key splits at its last colon.
\<close>

lemma lt10: "d < 10 \<Longrightarrow> d \<in> {0, 1, 2, 3, 4, 5, 6, 7, 8, 9::nat}"
  by auto

lemma digit_val_char: "d < 10 \<Longrightarrow> digit_val (digit_char d) = d"
  by (drule lt10) (auto simp: digit_val_def digit_char_def upt_conv_Cons)

lemma digit_char_in: "d < 10 \<Longrightarrow> digit_char d \<in> set ''0123456789''"
  by (drule lt10) (auto simp: digit_char_def)

lemma digits_val_append: "digits_val (xs @ ys) acc = digits_val ys (digits_val xs acc)"
  by (induction xs arbitrary: acc) simp_all

lemma digits_val_digits_nat: "digits_val (digits_nat n) 0 = n"
proof (induction n rule: digits_nat.induct)
  case (1 n)
  show ?case
  proof (cases "n < 10")
    case True
    then show ?thesis by (subst digits_nat.simps) (simp add: digit_val_char)
  next
    case False
    then show ?thesis using 1
      by (subst digits_nat.simps) (simp add: digits_val_append digit_val_char)
  qed
qed

lemma digits_nat_chars: "set (digits_nat n) \<subseteq> set ''0123456789''"
proof (induction n rule: digits_nat.induct)
  case (1 n)
  show ?case
  proof (cases "n < 10")
    case True
    then show ?thesis using digit_char_in [of n] by (subst digits_nat.simps) simp
  next
    case False
    then show ?thesis using 1 digit_char_in [of "n mod 10"]
      by (subst digits_nat.simps) simp
  qed
qed

lemma digits_nat_inject: "digits_nat m = digits_nat n \<Longrightarrow> m = n"
  by (metis digits_val_digits_nat)

lemma digits_nat_nonempty: "digits_nat n \<noteq> []"
  by (subst digits_nat.simps) simp

lemma py_str_int_inject: "py_str_int i = py_str_int j \<Longrightarrow> i = j"
proof -
  assume a: "py_str_int i = py_str_int j"
  have nominus: "hd (digits_nat n) \<noteq> CHR ''-''" for n
    using digits_nat_chars [of n] digits_nat_nonempty [of n]
    by (cases "digits_nat n") auto
  show ?thesis
  proof (cases "i < 0")
    case True
    then have "j < 0" using a nominus [of "nat j"]
      by (auto simp: py_str_int_def split: if_splits) (metis list.sel(1))
    with True a have "nat (- i) = nat (- j)" by (auto simp: py_str_int_def dest: digits_nat_inject)
    with True \<open>j < 0\<close> show ?thesis by simp
  next
    case False
    then have "\<not> j < 0" using a nominus [of "nat i"]
      by (auto simp: py_str_int_def split: if_splits)
    with False a have "nat i = nat j" by (auto simp: py_str_int_def dest: digits_nat_inject)
    with False \<open>\<not> j < 0\<close> show ?thesis by simp
  qed
qed

lemma py_str_int_no_colon: "CHR '':'' \<notin> set (py_str_int i)"
  using digits_nat_chars by (auto simp: py_str_int_def)

lemma split_last_sep:
  assumes "xs @ a # ys = xs' @ a # ys'" "a \<notin> set ys" "a \<notin> set ys'"
  shows "xs = xs' \<and> ys = ys'"
proof -
  have "takeWhile (\<lambda>x. x \<noteq> a) (rev (xs @ a # ys)) = rev ys"
    using assms(2) by (auto simp: takeWhile_tail)
  moreover have "takeWhile (\<lambda>x. x \<noteq> a) (rev (xs' @ a # ys')) = rev ys'"
    using assms(3) by (auto simp: takeWhile_tail)
  ultimately have "ys = ys'" using assms(1) by (metis rev_is_rev_conv)
  with assms(1) show ?thesis by simp
qed

lemma merge_key_inject:
  "merge_key d c = merge_key d' c' \<Longrightarrow> d = d' \<and> c = c'"
  using split_last_sep [of d "CHR '':''" "py_str_int c" d' "py_str_int c'"]
    py_str_int_no_colon py_str_int_inject
  by (auto simp: merge_key_def)

subsection \<open>Insertion order of the merged dictionary\<close>

lemma keys_update: "map fst (AList.update k v al) = insert_key k (map fst al)"
  by (simp add: update_keys insert_key_def)

lemma keys_merge_vector:
  "map fst (merge_vector rs al) = fold insert_key (vector_keys rs) (map fst al)"
  by (induction rs arbitrary: al)
     (simp_all add: vector_keys_def keys_update split: option.splits)

lemma keys_keyword_step: "map fst (keyword_step ops r k al) = insert_key k (map fst al)"
  by (simp add: keyword_step_def Let_def keys_update split: option.splits)

lemma keys_merge_keyword:
  "map fst (merge_keyword ops rs al) = fold insert_key (keyword_keys rs) (map fst al)"
  by (induction rs arbitrary: al)
     (simp_all add: keyword_keys_def keys_keyword_step split: option.splits)

lemma fold_insert_key_distinct: "distinct acc \<Longrightarrow> distinct (fold insert_key xs acc)"
  by (induction xs arbitrary: acc) (simp_all add: insert_key_def)

lemma fold_insert_key_set: "set (fold insert_key xs acc) = set acc \<union> set xs"
  by (induction xs arbitrary: acc) (auto simp: insert_key_def)

lemma fold_insert_key_split:
  "fold insert_key xs acc = acc @ filter (\<lambda>k. k \<notin> set acc) (fold insert_key xs [])"
proof (induction xs arbitrary: acc rule: rev_induct)
  case Nil
  then show ?case by simp
next
  case (snoc x xs)
  have "fold insert_key (xs @ [x]) acc = insert_key x (fold insert_key xs acc)" by simp
  also have "\<dots> = insert_key x (acc @ filter (\<lambda>k. k \<notin> set acc) (fold insert_key xs []))"
    using snoc.IH [of acc] by simp
  also have "\<dots> = acc @ filter (\<lambda>k. k \<notin> set acc) (insert_key x (fold insert_key xs []))"
    by (auto simp: insert_key_def)
  finally show ?case by simp
qed

lemma keys_merged_dict:
  "map fst (merged_dict ops vs ks) =
     dict_fromkeys (vector_keys vs) @
     filter (\<lambda>k. k \<notin> set (vector_keys vs)) (dict_fromkeys (keyword_keys ks))"
proof -
  have "map fst (merged_dict ops vs ks) =
          fold insert_key (keyword_keys ks) (dict_fromkeys (vector_keys vs))"
    by (simp add: merged_dict_def keys_merge_keyword keys_merge_vector dict_fromkeys_def)
  also have "\<dots> = dict_fromkeys (vector_keys vs) @
      filter (\<lambda>k. k \<notin> set (dict_fromkeys (vector_keys vs))) (dict_fromkeys (keyword_keys ks))"
    unfolding dict_fromkeys_def by (rule fold_insert_key_split)
  finally show ?thesis by (simp add: dict_fromkeys_def fold_insert_key_set)
qed

lemma distinct_merged_dict: "distinct (map fst (merged_dict ops vs ks))"
  by (simp add: merged_dict_def keys_merge_keyword keys_merge_vector fold_insert_key_distinct)

subsection \<open>The entry stored under a key\<close>

lemma map_of_merge_vector:
  "map_of (merge_vector rs al) k =
     (case last_with (\<lambda>r. vector_key r = Some k) rs of
        Some r \<Rightarrow> Some (vector_entry r) | None \<Rightarrow> map_of al k)"
  by (induction rs arbitrary: al) (auto simp: update_conv' split: option.splits)

lemma last_with_None: "last_with P xs = None \<longleftrightarrow> filter P xs = []"
  by (induction xs) (auto split: option.splits)

lemma map_of_keyword_step_other:
  "key \<noteq> k \<Longrightarrow> map_of (keyword_step ops r key al) k = map_of al k"
  by (simp add: keyword_step_def Let_def update_conv' split: option.splits)

lemma combined_keyword_step:
  "map_option h_combined_score (map_of (keyword_step ops r k al) k) =
     (case map_of al k of
        Some e \<Rightarrow> Some (Some (fadd ops (fmul ops (lit ops 0.7) (get0 (h_vector_score e)))
                                        (fmul ops (lit ops 0.3) (get0 (h_score r)))))
      | None \<Rightarrow> Some (Some (fmul ops (lit ops 0.3) (get0 (h_score r)))))"
  by (simp add: keyword_step_def Let_def update_conv' keyword_entry_def split: option.splits)

lemma vector_score_keyword_step:
  "map_option (\<lambda>e. get0 (h_vector_score e)) (map_of (keyword_step ops r k al) k) =
     (case map_of al k of Some e \<Rightarrow> Some (get0 (h_vector_score e)) | None \<Rightarrow> Some 0)"
  by (simp add: keyword_step_def Let_def update_conv' keyword_entry_def get0_def
           split: option.splits)

lemma combined_merge_keyword:
  "map_option h_combined_score (map_of (merge_keyword ops rs al) k) =
     (case last_with (\<lambda>r. keyword_key r = Some k) rs of
        None \<Rightarrow> map_option h_combined_score (map_of al k)
      | Some w \<Rightarrow>
          (case map_of al k of
             Some e \<Rightarrow>
               Some (Some (fadd ops (fmul ops (lit ops 0.7) (get0 (h_vector_score e)))
                                    (fmul ops (lit ops 0.3) (get0 (h_score w)))))
           | None \<Rightarrow>
               if length (filter (\<lambda>r. keyword_key r = Some k) rs) \<le> 1
               then Some (Some (fmul ops (lit ops 0.3) (get0 (h_score w))))
               else Some (Some (fadd ops (fmul ops (lit ops 0.7) 0)
                                         (fmul ops (lit ops 0.3) (get0 (h_score w)))))))"
proof (induction rs arbitrary: al)
  case Nil
  then show ?case by simp
next
  case (Cons r rs)
  show ?case
  proof (cases "keyword_key r = Some k")
    case False
    have "\<exists>al'. merge_keyword ops (r # rs) al = merge_keyword ops rs al' \<and> map_of al' k = map_of al k"
    proof (cases "keyword_key r")
      case None
      then show ?thesis by auto
    next
      case (Some a)
      then have "a \<noteq> k" using False by simp
      then show ?thesis using Some map_of_keyword_step_other [of a k ops r al] by auto
    qed
    then obtain al' where al': "merge_keyword ops (r # rs) al = merge_keyword ops rs al'"
      "map_of al' k = map_of al k" by blast
    have lw: "last_with (\<lambda>r. keyword_key r = Some k) (r # rs) =
              last_with (\<lambda>r. keyword_key r = Some k) rs"
      using False by (simp split: option.splits)
    have fl: "filter (\<lambda>r. keyword_key r = Some k) (r # rs) =
              filter (\<lambda>r. keyword_key r = Some k) rs"
      using False by simp
    show ?thesis unfolding al'(1) Cons.IH [of al'] al'(2) lw fl by (rule refl)
  next
    case True
    have "map_of (keyword_step ops r k al) k \<noteq> None"
      by (cases "map_of al k") (simp_all add: keyword_step_def Let_def update_conv')
    then obtain e' where e': "map_of (keyword_step ops r k al) k = Some e'" by blast
    have comb: "h_combined_score e' =
        (case map_of al k of
           Some e \<Rightarrow> Some (fadd ops (fmul ops (lit ops 0.7) (get0 (h_vector_score e)))
                                   (fmul ops (lit ops 0.3) (get0 (h_score r))))
         | None \<Rightarrow> Some (fmul ops (lit ops 0.3) (get0 (h_score r))))"
      using combined_keyword_step [of ops r k al] e' by (simp split: option.splits)
    have vec: "get0 (h_vector_score e') =
        (case map_of al k of Some e \<Rightarrow> get0 (h_vector_score e) | None \<Rightarrow> 0)"
      using vector_score_keyword_step [of ops r k al] e' by (simp split: option.splits)
    show ?thesis
    proof (cases "last_with (\<lambda>r. keyword_key r = Some k) rs")
      case None
      then have "filter (\<lambda>r. keyword_key r = Some k) rs = []" by (simp add: last_with_None)
      then show ?thesis using True None e' comb
        by (simp add: Cons.IH split: option.splits)
    next
      case (Some w)
      then have "filter (\<lambda>r. keyword_key r = Some k) rs \<noteq> []"
        using last_with_None [of "\<lambda>r. keyword_key r = Some k" rs] by simp
      then have "\<not> length (filter (\<lambda>r. keyword_key r = Some k) (r # rs)) \<le> 1"
        using True by (cases "filter (\<lambda>r. keyword_key r = Some k) rs") simp_all
      then show ?thesis using True Some e' vec
        by (simp add: Cons.IH split: option.splits)
    qed
  qed
qed

lemma combined_merged_dict:
  "map_option h_combined_score (map_of (merged_dict ops vs ks) k) =
     map_option Some (expected_combined ops vs ks k)"
  by (simp add: merged_dict_def combined_merge_keyword map_of_merge_vector expected_combined_def
        vector_entry_def get0_def split: option.splits)

lemma id_keyword_step:
  "ids_ok al \<Longrightarrow> keyword_key r = Some key \<Longrightarrow> ids_ok (keyword_step ops r key al)"
  by (auto simp: ids_ok_def keyword_step_def Let_def update_conv' keyword_entry_def
           split: option.splits if_splits)

lemma id_merge_keyword: "ids_ok al \<Longrightarrow> ids_ok (merge_keyword ops rs al)"
  by (induction rs arbitrary: al) (auto simp: id_keyword_step split: option.splits)

lemma last_with_holds: "last_with P xs = Some r \<Longrightarrow> P r"
  by (induction xs) (auto split: option.splits if_splits)

lemma last_with_mem: "last_with P xs = Some r \<Longrightarrow> r \<in> set xs"
  by (induction xs) (auto split: option.splits if_splits)

lemma id_merge_vector: "ids_ok (merge_vector vs [])"
  unfolding ids_ok_def
proof (intro allI impI)
  fix k e assume "map_of (merge_vector vs []) k = Some e"
  then obtain r where r: "last_with (\<lambda>r. vector_key r = Some k) vs = Some r" "e = vector_entry r"
    by (auto simp: map_of_merge_vector split: option.splits)
  from last_with_holds [OF r(1)] r(2) show "h_id e = Some k" by (simp add: vector_entry_def)
qed

lemma id_merged_dict: "map_of (merged_dict ops vs ks) k = Some e \<Longrightarrow> h_id e = Some k"
  using id_merge_keyword [OF id_merge_vector, of ops ks vs]
  by (simp add: merged_dict_def ids_ok_def)

lemma ids_merged_dict:
  "map h_id (map snd (merged_dict ops vs ks)) = map Some (map fst (merged_dict ops vs ks))"
proof -
  have "(k, e) \<in> set (merged_dict ops vs ks) \<Longrightarrow> h_id e = Some k" for k e
    using id_merged_dict distinct_merged_dict by (metis map_of_eq_Some_iff)
  then show ?thesis by (auto simp: list_eq_iff_nth_eq)
qed

lemma set_merge_results: "set (merge_results ops vs ks) = snd ` set (merged_dict ops vs ks)"
  by (simp add: merge_results_def)

lemma filter_entries:
  "\<forall>x \<in> set al. g (snd x) = f (fst x) \<and> (P (snd x) \<longleftrightarrow> Q (fst x)) \<Longrightarrow>
     map g (filter P (map snd al)) = map f (filter Q (map fst al))"
  by (induction al) auto

lemma entry_merged_dict:
  assumes "(k, e) \<in> set (merged_dict ops vs ks)"
  shows "h_id e = Some k \<and> h_combined_score e = expected_combined ops vs ks k \<and>
         (\<exists>x. h_combined_score e = Some x)"
proof -
  have m: "map_of (merged_dict ops vs ks) k = Some e"
    using assms distinct_merged_dict by simp
  have "map_option Some (expected_combined ops vs ks k) = Some (h_combined_score e)"
    using combined_merged_dict [of ops vs ks k] m by simp
  then obtain x where "expected_combined ops vs ks k = Some x" "h_combined_score e = Some x"
    by (cases "expected_combined ops vs ks k") auto
  with id_merged_dict [OF m] show ?thesis by simp
qed

lemma vector_key_mem:
  "r \<in> set vs \<Longrightarrow> vector_key r = Some k \<Longrightarrow> k \<in> set (vector_keys vs)"
  by (induction vs) (auto simp: vector_keys_def map_filter_simps split: option.splits)

lemma last_with_vector_key:
  "last_with (\<lambda>r. vector_key r = Some k) vs = Some v \<Longrightarrow> k \<in> set (vector_keys vs)"
  using last_with_holds [of "\<lambda>r. vector_key r = Some k" vs v]
    last_with_mem [of "\<lambda>r. vector_key r = Some k" vs v] vector_key_mem [of v vs k]
  by simp

text \<open>
  C1. The hybrid merge keys entries by \<open>merge_key\<close> of (document id, chunk index). An
  entry whose key occurs among both the vector and the keyword hits has combined score
  0.7 * vector + 0.3 * keyword (of the last hit with that key on each side); a vector-only
  key keeps its vector score; a keyword-only key gets 0.3 * keyword, computed as
  0.7 * 0 + 0.3 * keyword when several keyword hits share the key, which is the same
  number in an arithmetic where 0.7 * 0 + y = y, as on doubles. The output is sorted by
  the stored combined score, descending, and the sort is stable: the entries of equal
  combined score are those of the keys with that score, in dictionary insertion order,
  which lists the vector keys by first occurrence (the vector rank) and then the
  keyword-only keys. All of this holds whatever the rounding of products and sums.
\<close>

theorem merge_results_hybrid:
  "(\<forall>e \<in> set (merge_results ops vs ks).
      \<exists>k. h_id e = Some k \<and> k \<in> set (vector_keys vs @ keyword_keys ks) \<and>
          h_combined_score e = expected_combined ops vs ks k)
   \<and> ((\<forall>y. fadd ops (fmul ops (lit ops 0.7) 0) y = y) \<longrightarrow>
        (\<forall>e \<in> set (merge_results ops vs ks). \<forall>k w.
            h_id e = Some k \<and> k \<notin> set (vector_keys vs) \<and>
            last_with (\<lambda>r. keyword_key r = Some k) ks = Some w \<longrightarrow>
            h_combined_score e = Some (fmul ops (lit ops 0.3) (get0 (h_score w)))))
   \<and> sorted_wrt (\<lambda>a b. \<exists>x y. h_combined_score a = Some x \<and> h_combined_score b = Some y \<and> y \<le> x)
        (merge_results ops vs ks)
   \<and> (\<forall>s. map h_id (filter (\<lambda>e. h_combined_score e = Some s) (merge_results ops vs ks)) =
           map Some (filter (\<lambda>k. expected_combined ops vs ks k = Some s) (merged_keys vs ks)))"
proof (intro conjI ballI allI impI)
  fix e assume "e \<in> set (merge_results ops vs ks)"
  then obtain k where ke: "(k, e) \<in> set (merged_dict ops vs ks)"
    by (auto simp: set_merge_results)
  have "k \<in> set (map fst (merged_dict ops vs ks))" using ke by force
  then have k: "k \<in> set (vector_keys vs @ keyword_keys ks)"
    by (auto simp: keys_merged_dict dict_fromkeys_def fold_insert_key_set)
  with entry_merged_dict [OF ke]
  show "\<exists>k. h_id e = Some k \<and> k \<in> set (vector_keys vs @ keyword_keys ks) \<and>
          h_combined_score e = expected_combined ops vs ks k" by blast
next
  fix e k w
  assume zero: "\<forall>y. fadd ops (fmul ops (lit ops 0.7) 0) y = y"
    and "e \<in> set (merge_results ops vs ks)"
    and kw: "h_id e = Some k \<and> k \<notin> set (vector_keys vs) \<and>
             last_with (\<lambda>r. keyword_key r = Some k) ks = Some w"
  then obtain k' where ke: "(k', e) \<in> set (merged_dict ops vs ks)"
    by (auto simp: set_merge_results)
  from entry_merged_dict [OF ke] kw have c: "h_combined_score e = expected_combined ops vs ks k"
    by simp
  have "last_with (\<lambda>r. vector_key r = Some k) vs = None"
    using kw last_with_vector_key [of k vs] by (cases "last_with (\<lambda>r. vector_key r = Some k) vs") auto
  then show "h_combined_score e = Some (fmul ops (lit ops 0.3) (get0 (h_score w)))"
    using c kw zero by (simp add: expected_combined_def)
next
  have some: "\<exists>x. h_combined_score e = Some x" if "e \<in> set (merge_results ops vs ks)" for e
  proof -
    from that obtain k where "(k, e) \<in> set (merged_dict ops vs ks)"
      by (auto simp: set_merge_results)
    from entry_merged_dict [OF this] show ?thesis by blast
  qed
  have "sorted (map (\<lambda>e. - get0 (h_combined_score e)) (merge_results ops vs ks))"
    by (simp add: merge_results_def)
  then have "sorted_wrt (\<lambda>a b. get0 (h_combined_score b) \<le> get0 (h_combined_score a))
               (merge_results ops vs ks)"
    by (simp add: sorted_map)
  then show "sorted_wrt
      (\<lambda>a b. \<exists>x y. h_combined_score a = Some x \<and> h_combined_score b = Some y \<and> y \<le> x)
      (merge_results ops vs ks)"
  proof (rule sorted_wrt_mono_rel [rotated])
    fix a b
    assume "a \<in> set (merge_results ops vs ks)" "b \<in> set (merge_results ops vs ks)"
      and "get0 (h_combined_score b) \<le> get0 (h_combined_score a)"
    with some [of a] some [of b]
    show "\<exists>x y. h_combined_score a = Some x \<and> h_combined_score b = Some y \<and> y \<le> x"
      by (auto simp: get0_def)
  qed
next
  fix s
  have some: "\<exists>x. h_combined_score e = Some x" if "e \<in> snd ` set (merged_dict ops vs ks)" for e
  proof -
    from that obtain k where "(k, e) \<in> set (merged_dict ops vs ks)" by auto
    from entry_merged_dict [OF this] show ?thesis by blast
  qed
  have eq: "(h_combined_score e = Some s) = (- get0 (h_combined_score e) = - s)"
    if "e \<in> snd ` set (merged_dict ops vs ks)" for e
    using some [OF that] by (auto simp: get0_def)
  have "filter (\<lambda>e. h_combined_score e = Some s) (merge_results ops vs ks) =
        filter (\<lambda>e. - get0 (h_combined_score e) = - s) (merge_results ops vs ks)"
    by (rule filter_cong) (simp_all add: set_merge_results eq)
  also have "\<dots> = filter (\<lambda>e. - get0 (h_combined_score e) = - s) (map snd (merged_dict ops vs ks))"
    unfolding merge_results_def by (rule sort_key_stable)
  also have "\<dots> = filter (\<lambda>e. h_combined_score e = Some s) (map snd (merged_dict ops vs ks))"
    by (rule filter_cong) (simp_all add: eq)
  finally have "map h_id (filter (\<lambda>e. h_combined_score e = Some s) (merge_results ops vs ks)) =
      map h_id (filter (\<lambda>e. h_combined_score e = Some s) (map snd (merged_dict ops vs ks)))"
    by simp
  also have "\<dots> = map Some (filter (\<lambda>k. expected_combined ops vs ks k = Some s)
                               (map fst (merged_dict ops vs ks)))"
  proof (rule filter_entries, rule ballI)
    fix x assume "x \<in> set (merged_dict ops vs ks)"
    then have "(fst x, snd x) \<in> set (merged_dict ops vs ks)" by simp
    from entry_merged_dict [OF this]
    show "h_id (snd x) = Some (fst x) \<and>
          ((h_combined_score (snd x) = Some s) \<longleftrightarrow> (expected_combined ops vs ks (fst x) = Some s))"
      by simp
  qed
  finally show "map h_id (filter (\<lambda>e. h_combined_score e = Some s) (merge_results ops vs ks)) =
      map Some (filter (\<lambda>k. expected_combined ops vs ks k = Some s) (merged_keys vs ks))"
    by (simp only: keys_merged_dict merged_keys_def)
qed

lemmas merge_eval =
  merge_results_def merged_dict_def vhit_def khit_def vector_key_def keyword_key_def
  payload_of_def truthy_str_def merge_key_def py_str_int_def digits_nat.simps digit_char_def
  vector_entry_def keyword_entry_def keyword_step_def Let_def get0_def empty_hit_def
  empty_meta_def exact_ops_def

text \<open>
  An example in exact arithmetic. The vector hits arrive in the order d1:0 (0.4), d1:1
  (0.9), d1:2 (0.4), d1:3 (0.5); the keyword hits are d2:0 (0.5), d1:3 (0.8) and d2:0
  again (0.6). The sort moves d1:1 to the front, d1:3 (0.7 * 0.5 + 0.3 * 0.8 = 0.59)
  comes second, d1:0 and d1:2 tie at 0.4 and keep their vector rank, and the keyword-only
  d2:0 is last with 0.3 * 0.6 = 0.18.
\<close>

theorem merge_results_hybrid_witness:
  "map (\<lambda>e. (h_id e, h_combined_score e))
     (merge_results exact_ops
        [vhit ''d1'' 0 0.4, vhit ''d1'' 1 0.9, vhit ''d1'' 2 0.4, vhit ''d1'' 3 0.5]
        [khit ''d2'' 0 0.5, khit ''d1'' 3 0.8, khit ''d2'' 0 0.6])
     = [(Some ''d1:1'', Some 0.9), (Some ''d1:3'', Some 0.59), (Some ''d1:0'', Some 0.4),
        (Some ''d1:2'', Some 0.4), (Some ''d2:0'', Some 0.18)]
   \<and> map h_id (filter (\<lambda>e. h_combined_score e = Some 0.4)
        (merge_results exact_ops
           [vhit ''d1'' 0 0.4, vhit ''d1'' 1 0.9, vhit ''d1'' 2 0.4, vhit ''d1'' 3 0.5]
           [khit ''d2'' 0 0.5, khit ''d1'' 3 0.8, khit ''d2'' 0 0.6]))
     = map Some (filter (\<lambda>k. expected_combined exact_ops
           [vhit ''d1'' 0 0.4, vhit ''d1'' 1 0.9, vhit ''d1'' 2 0.4, vhit ''d1'' 3 0.5]
           [khit ''d2'' 0 0.5, khit ''d1'' 3 0.8, khit ''d2'' 0 0.6] k = Some 0.4)
         (merged_keys
           [vhit ''d1'' 0 0.4, vhit ''d1'' 1 0.9, vhit ''d1'' 2 0.4, vhit ''d1'' 3 0.5]
           [khit ''d2'' 0 0.5, khit ''d1'' 3 0.8, khit ''d2'' 0 0.6]))
   \<and> (\<exists>e \<in> set (merge_results exact_ops
           [vhit ''d1'' 0 0.4, vhit ''d1'' 1 0.9, vhit ''d1'' 2 0.4, vhit ''d1'' 3 0.5]
           [khit ''d2'' 0 0.5, khit ''d1'' 3 0.8, khit ''d2'' 0 0.6]).
        h_id e = Some ''d2:0'' \<and>
        h_combined_score e = Some (fmul exact_ops (lit exact_ops 0.3) 0.6))"
proof -
  let ?vs = "[vhit ''d1'' 0 0.4, vhit ''d1'' 1 0.9, vhit ''d1'' 2 0.4, vhit ''d1'' 3 0.5]"
  let ?ks = "[khit ''d2'' 0 0.5, khit ''d1'' 3 0.8, khit ''d2'' 0 0.6]"
  let ?out = "merge_results exact_ops ?vs ?ks"
  note claim = merge_results_hybrid [of exact_ops ?vs ?ks]
  have out: "map (\<lambda>e. (h_id e, h_combined_score e)) ?out
     = [(Some ''d1:1'', Some 0.9), (Some ''d1:3'', Some 0.59), (Some ''d1:0'', Some 0.4),
        (Some ''d1:2'', Some 0.4), (Some ''d2:0'', Some 0.18)]"
    by (simp add: merge_eval)
  have stable: "map h_id (filter (\<lambda>e. h_combined_score e = Some 0.4) ?out) =
      map Some (filter (\<lambda>k. expected_combined exact_ops ?vs ?ks k = Some 0.4) (merged_keys ?vs ?ks))"
    using claim by blast
  have zero: "\<forall>y. fadd exact_ops (fmul exact_ops (lit exact_ops 0.7) 0) y = y"
    by (simp add: exact_ops_def)
  have ne: "?out \<noteq> []" using out by auto
  then have mem: "last ?out \<in> set ?out" by simp
  have "last (map (\<lambda>e. (h_id e, h_combined_score e)) ?out) = (Some ''d2:0'', Some 0.18)"
    by (simp only: out) simp
  then have id: "h_id (last ?out) = Some ''d2:0''"
    using ne by (simp add: last_map)
  have "''d2:0'' \<notin> set (vector_keys ?vs)"
    by (simp add: vector_keys_def map_filter_simps merge_eval)
  moreover have "last_with (\<lambda>r. keyword_key r = Some ''d2:0'') ?ks = Some (khit ''d2'' 0 0.6)"
    by (simp add: merge_eval)
  ultimately have "h_combined_score (last ?out) =
      Some (fmul exact_ops (lit exact_ops 0.3) (get0 (h_score (khit ''d2'' 0 0.6))))"
    using claim zero mem id by blast
  then have "h_id (last ?out) = Some ''d2:0'' \<and>
      h_combined_score (last ?out) = Some (fmul exact_ops (lit exact_ops 0.3) 0.6)"
    using id by (simp add: khit_def get0_def)
  with mem out stable show ?thesis by blast
qed

subsection \<open>Hits without a usable key are dropped\<close>

lemma vector_key_valid:
  "vector_key r = Some k \<Longrightarrow>
     \<exists>d c. m_document_id (payload_of r) = Some d \<and> d \<noteq> [] \<and>
           m_chunk_index (payload_of r) = Some c \<and> k = merge_key d c"
  by (auto simp: vector_key_def Let_def truthy_str_def split: if_splits option.splits)

lemma keyword_key_valid:
  "keyword_key r = Some k \<Longrightarrow>
     \<exists>d c. h_document_id r = Some d \<and> d \<noteq> [] \<and> h_chunk_index r = Some c \<and> k = merge_key d c"
  by (auto simp: keyword_key_def Let_def truthy_str_def split: if_splits option.splits)

lemma from_valid_merge_vector:
  assumes "map_of (merge_vector vs []) k = Some e"
  shows "from_valid vs ks e"
proof -
  from assms obtain r where r: "last_with (\<lambda>r. vector_key r = Some k) vs = Some r" "e = vector_entry r"
    by (auto simp: map_of_merge_vector split: option.splits)
  have key: "vector_key r = Some k" by (rule last_with_holds [OF r(1)])
  from vector_key_valid [OF key] obtain d c where dc:
    "m_document_id (payload_of r) = Some d" "d \<noteq> []" "m_chunk_index (payload_of r) = Some c"
    "k = merge_key d c" by blast
  have "h_document_id e = Some d" "h_chunk_index e = Some c" "h_id e = Some (merge_key d c)"
    using r(2) dc key by (simp_all add: vector_entry_def)
  moreover have "r \<in> set vs" by (rule last_with_mem [OF r(1)])
  ultimately show ?thesis unfolding from_valid_def using dc by blast
qed

lemma from_valid_keyword_step:
  assumes "\<forall>k e. map_of al k = Some e \<longrightarrow> from_valid vs ks e"
    and "keyword_key r = Some key" and "r \<in> set ks"
  shows "\<forall>k e. map_of (keyword_step ops r key al) k = Some e \<longrightarrow> from_valid vs ks e"
proof (intro allI impI)
  fix k e assume e: "map_of (keyword_step ops r key al) k = Some e"
  show "from_valid vs ks e"
  proof (cases "k = key")
    case False
    then have "map_of al k = Some e" using e
      by (auto simp: keyword_step_def Let_def update_conv' split: option.splits)
    then show ?thesis using assms(1) by blast
  next
    case True
    show ?thesis
    proof (cases "map_of al key")
      case None
      then have er: "e = keyword_entry ops r" using e True
        by (simp add: keyword_step_def Let_def update_conv')
      from keyword_key_valid [OF assms(2)] obtain d c where dc:
        "h_document_id r = Some d" "d \<noteq> []" "h_chunk_index r = Some c" "key = merge_key d c"
        by blast
      have "h_document_id e = Some d" "h_chunk_index e = Some c" "h_id e = Some (merge_key d c)"
        using er dc assms(2) by (simp_all add: keyword_entry_def)
      then show ?thesis unfolding from_valid_def using dc assms(3) by blast
    next
      case (Some e0)
      then have "h_document_id e = h_document_id e0" "h_chunk_index e = h_chunk_index e0"
        "h_id e = h_id e0"
        using e True by (auto simp: keyword_step_def Let_def update_conv')
      moreover have "from_valid vs ks e0" using assms(1) Some by blast
      ultimately show ?thesis by (simp add: from_valid_def)
    qed
  qed
qed

lemma from_valid_merge_keyword:
  "\<forall>k e. map_of al k = Some e \<longrightarrow> from_valid vs ks e \<Longrightarrow> set rs \<subseteq> set ks \<Longrightarrow>
     \<forall>k e. map_of (merge_keyword ops rs al) k = Some e \<longrightarrow> from_valid vs ks e"
proof (induction rs arbitrary: al)
  case Nil
  then show ?case by simp
next
  case (Cons r rs)
  show ?case
  proof (cases "keyword_key r")
    case None
    then show ?thesis using Cons by simp
  next
    case (Some key)
    have "\<forall>k e. map_of (keyword_step ops r key al) k = Some e \<longrightarrow> from_valid vs ks e"
      using from_valid_keyword_step [OF Cons.prems(1) Some] Cons.prems(2) by simp
    then show ?thesis using Cons.IH [of "keyword_step ops r key al"] Cons.prems(2) Some by simp
  qed
qed

lemma merge_vector_filter:
  "merge_vector (filter (\<lambda>r. vector_key r \<noteq> None) rs) al = merge_vector rs al"
  by (induction rs arbitrary: al) (auto split: option.splits)

lemma merge_keyword_filter:
  "merge_keyword ops (filter (\<lambda>r. keyword_key r \<noteq> None) rs) al = merge_keyword ops rs al"
  by (induction rs arbitrary: al) (auto split: option.splits)

text \<open>
  C9. In the hybrid merge a vector hit (pair read from its payload) or keyword hit whose
  document id is missing or empty, or whose chunk index is \<^verbatim>\<open>None\<close>, is dropped without
  trace: removing such hits from the inputs does not change the result, and every entry
  of the output carries a non-empty document id and a chunk index taken from some hit
  that has them, with \<^verbatim>\<open>id\<close> the key built from the two.
\<close>

theorem merge_results_drops_invalid:
  "(\<forall>e \<in> set (merge_results ops vs ks).
      from_valid vs ks e)
   \<and> merge_results ops vs ks =
       merge_results ops (filter (\<lambda>r. vector_key r \<noteq> None) vs) (filter (\<lambda>r. keyword_key r \<noteq> None) ks)"
proof (intro conjI ballI)
  fix e assume "e \<in> set (merge_results ops vs ks)"
  then obtain k where "(k, e) \<in> set (merged_dict ops vs ks)"
    by (auto simp: set_merge_results)
  then have m: "map_of (merged_dict ops vs ks) k = Some e"
    using distinct_merged_dict by simp
  have "\<forall>k e. map_of (merge_vector vs []) k = Some e \<longrightarrow> from_valid vs ks e"
    using from_valid_merge_vector by blast
  from from_valid_merge_keyword [OF this, of ks] m
  show "from_valid vs ks e" by (simp add: merged_dict_def)
next
  show "merge_results ops vs ks =
       merge_results ops (filter (\<lambda>r. vector_key r \<noteq> None) vs) (filter (\<lambda>r. keyword_key r \<noteq> None) ks)"
    by (simp only: merge_results_def merged_dict_def merge_vector_filter merge_keyword_filter)
qed

theorem merge_results_drops_invalid_witness:
  "map h_id (merge_results exact_ops
       [vhit ''d1'' 0 0.9, empty_hit\<lparr>h_score := Some 0.8\<rparr>, vhit [] 3 0.7]
       [khit ''d2'' 1 0.5, empty_hit\<lparr>h_document_id := Some ''d3'', h_score := Some 0.6\<rparr>])
     = [Some ''d1:0'', Some ''d2:1'']
   \<and> (\<exists>e \<in> set (merge_results exact_ops
       [vhit ''d1'' 0 0.9, empty_hit\<lparr>h_score := Some 0.8\<rparr>, vhit [] 3 0.7]
       [khit ''d2'' 1 0.5, empty_hit\<lparr>h_document_id := Some ''d3'', h_score := Some 0.6\<rparr>]).
         from_valid
           [vhit ''d1'' 0 0.9, empty_hit\<lparr>h_score := Some 0.8\<rparr>, vhit [] 3 0.7]
           [khit ''d2'' 1 0.5, empty_hit\<lparr>h_document_id := Some ''d3'', h_score := Some 0.6\<rparr>] e)"
proof -
  let ?vs = "[vhit ''d1'' 0 0.9, empty_hit\<lparr>h_score := Some 0.8\<rparr>, vhit [] 3 0.7]"
  let ?ks = "[khit ''d2'' 1 0.5, empty_hit\<lparr>h_document_id := Some ''d3'', h_score := Some 0.6\<rparr>]"
  have ids: "map h_id (merge_results exact_ops ?vs ?ks) = [Some ''d1:0'', Some ''d2:1'']"
    by (simp add: merge_eval)
  then have "merge_results exact_ops ?vs ?ks \<noteq> []" by auto
  then obtain e where e: "e \<in> set (merge_results exact_ops ?vs ?ks)"
    by (cases "merge_results exact_ops ?vs ?ks") auto
  with merge_results_drops_invalid [of exact_ops ?vs ?ks] have "from_valid ?vs ?ks e" by blast
  with e ids show ?thesis by blast
qed

subsection \<open>Retrieval without hybrid search\<close>

text \<open>
  C6. Vector candidates (d1, 0, 0.9) and (d1, 1, 0.4), retrieved with
  \<^verbatim>\<open>use_hybrid=False\<close>: the two results come back in the order of the candidates, but
  \<^verbatim>\<open>_process_results\<close> reads the score from \<^verbatim>\<open>combined_score\<close> or \<^verbatim>\<open>vector_score\<close>, which
  raw vector hits do not have, so both scores are 0 rather than 0.9 and 0.4. With hybrid
  search the same candidates keep their scores.
\<close>

theorem retrieve_non_hybrid_scores:
  "map_sum id (map (\<lambda>r. (h_document_id r, h_chunk_index r, h_score r)))
     (retrieve ops (test_env [candidate ''d1'' 0 0.9, candidate ''d1'' 1 0.4])
        ''q'' None (Some False) True None)
     = Inr [(Some ''d1'', Some 0, Some 0), (Some ''d1'', Some 1, Some 0)]
   \<and> map_sum id (map (\<lambda>r. (h_document_id r, h_chunk_index r, h_score r)))
     (retrieve ops (test_env [candidate ''d1'' 0 0.9, candidate ''d1'' 1 0.4])
        ''q'' None (Some True) True None)
     = Inr [(Some ''d1'', Some 0, Some 0.9), (Some ''d1'', Some 1, Some 0.4)]"
  by (simp add: retrieve_def test_env_def candidate_def process_results_def process_result_def
        processed_score_def truthy_num_def truthy_str_def fetch_chunk_content_def ids_to_fetch_def
        add_content_def keyword_search_def rerank_results_def empty_hit_def empty_meta_def
        get0_def Let_def merge_results_def merged_dict_def vector_key_def payload_of_def
        merge_key_def py_str_int_def digits_nat.simps digit_char_def vector_entry_def
        map_filter_simps)

section \<open>Properties of the reflection controller\<close>

subsection \<open>Sufficient initial results\<close>

lemma relevance_of_mean:
  assumes "sum_list (map (\<lambda>r. get0 (h_score r)) results) / real (length results) = 0.9"
    and "length results \<ge> 5"
  shows "relevance_of results = 0.93"
proof -
  have ne: "results \<noteq> []" using assms(2) by auto
  have "real (length results) / 5 \<ge> 1" using assms(2) by simp
  then have "min (real (length results) / 5) 1 = 1" by simp
  then show ?thesis using ne assms(1) by (simp add: relevance_of_def Let_def)
qed

lemma coverage_of_ge:
  assumes "results \<noteq> []" and "contents_of results = Inr texts"
    and "length results \<ge> 7 \<or> term_overlap query texts \<ge> 0.7"
  shows "\<exists>c. coverage_of query results = Inr c \<and> c \<ge> 0.7"
proof -
  have "max (term_overlap query texts) (min (real (length results) / 10) 0.7) \<ge> 0.7"
    using assms(3)
  proof
    assume "length results \<ge> 7"
    then have "real (length results) / 10 \<ge> 0.7" by simp
    then have "min (real (length results) / 10) 0.7 = 0.7" by simp
    then show ?thesis by simp
  next
    assume "term_overlap query texts \<ge> 0.7"
    then show ?thesis by simp
  qed
  then show ?thesis using assms(1,2) by (simp add: coverage_of_def Let_def)
qed

lemma contents_of_none:
  "r \<in> set results \<Longrightarrow> h_content r = StoredNone \<Longrightarrow>
     contents_of results = Inl (PyError ''AttributeError'')"
proof (induction results)
  case Nil
  then show ?case by simp
next
  case (Cons a results)
  show ?case
  proof (cases "h_content a")
    case StoredNone
    then show ?thesis by (simp add: content_of_def)
  next
    case Absent
    then have "a \<noteq> r" using Cons.prems(2) by auto
    then show ?thesis using Cons Absent by (simp add: content_of_def)
  next
    case (Text c)
    then have "a \<noteq> r" using Cons.prems(2) by auto
    then show ?thesis using Cons Text by (simp add: content_of_def)
  qed
qed

text \<open>
  A result whose content is a stored \<^verbatim>\<open>None\<close> makes the analysis raise: with reflection
  enabled, \<^verbatim>\<open>reflect\<close> then returns no result, whatever the scores.
\<close>

lemma reflect_content_none:
  assumes "enabled cfg" and "r \<in> set initial_results" and "h_content r = StoredNone"
  shows "reflect ops cfg env query initial_results = Inl (PyError ''AttributeError'')"
proof -
  have "initial_results \<noteq> []" using assms(2) by auto
  then show ?thesis using assms(1) contents_of_none [OF assms(2,3)]
    by (simp add: reflect_def analyze_results_def coverage_of_def Let_def)
qed

text \<open>
  C5 (amended). Initial results with mean score 0.9 and at least five entries, none of
  which has \<^verbatim>\<open>None\<close> as content, reach the relevance threshold 0.6 (relevance is 0.93).
  Reflection is skipped, with \<^verbatim>\<open>has_reflected = False\<close> and the ranked chunks equal to the
  initial results, when the coverage threshold 0.7 is reached as well: with at least
  seven results (the count alone then gives coverage 0.7), or with a term overlap of at
  least 0.7 between an ASCII query and ASCII contents.
\<close>

theorem reflect_sufficient:
  assumes "sum_list (map (\<lambda>r. get0 (h_score r)) initial_results) / real (length initial_results) = 0.9"
    and "length initial_results \<ge> 5"
    and "contents_of initial_results = Inr texts"
    and "length initial_results \<ge> 7 \<or>
         (ascii_text query \<and> list_all ascii_text texts \<and> term_overlap query texts \<ge> 0.7)"
    and "min_relevance_threshold cfg = 0.6" and "min_coverage_threshold cfg = 0.7"
  shows "\<exists>r. reflect ops cfg env query initial_results = Inr r \<and> \<not> has_reflected r \<and>
             ranked_chunks r = initial_results \<and> has_sufficient_info r"
proof -
  have ne: "initial_results \<noteq> []" using assms(2) by auto
  have rel: "relevance_of initial_results = 0.93" by (rule relevance_of_mean [OF assms(1,2)])
  have "length initial_results \<ge> 7 \<or> term_overlap query texts \<ge> 0.7" using assms(4) by blast
  from coverage_of_ge [OF ne assms(3) this]
  obtain c where cov: "coverage_of query initial_results = Inr c" "c \<ge> 0.7" by blast
  show ?thesis
  proof (cases "enabled cfg")
    case False
    then show ?thesis using ne by (simp add: reflect_def new_result_def Let_def)
  next
    case True
    then show ?thesis using ne rel cov assms(5,6)
      by (simp add: reflect_def new_result_def analyze_results_def Let_def)
  qed
qed

lemmas reflect_eval =
  reflect_def new_result_def analyze_results_def relevance_of_def coverage_of_def
  term_overlap_def extract_key_terms_def lower_char_def is_word_char_def stop_words_def
  extract_query_topics_def generate_follow_up_queries_def dict_fromkeys_def insert_key_def
  py_take_def default_config_def follow_up_retrieve_def retrieve_def test_env_def
  failing_env_def res_def empty_hit_def content_of_def get0_def Let_def truthy_str_def
  merge_and_rank_results_def all_results_dict_def add_reflection_result_def final_score_def
  strip_entry_def result_key_def py_str_int_def digits_nat.simps digit_char_def
  merge_results_def merged_dict_def keyword_search_def process_results_def
  fetch_chunk_content_def ids_to_fetch_def five_good_def seven_good_def five_matching_def
  exact_ops_def ascii_text_def ascii_contents_def

text \<open>
  Seven results reach the coverage threshold by their count; five results whose content
  \<^verbatim>\<open>Quantum theory\<close> contains the only term of the query \<^verbatim>\<open>quantum\<close> reach it by term overlap.
\<close>

theorem reflect_sufficient_witness:
  "(\<exists>r. reflect exact_ops (default_config (\<lambda>q. [])) (test_env []) ''quantum'' seven_good = Inr r \<and>
       \<not> has_reflected r \<and> ranked_chunks r = seven_good \<and> has_sufficient_info r)
   \<and> length five_matching = 5
   \<and> term_overlap ''quantum'' (replicate 5 ''Quantum theory'') = 1
   \<and> (\<exists>r. reflect exact_ops (default_config (\<lambda>q. [])) (test_env []) ''quantum'' five_matching = Inr r \<and>
       \<not> has_reflected r \<and> ranked_chunks r = five_matching \<and> has_sufficient_info r)"
proof -
  let ?cfg = "default_config (\<lambda>q. [])"
  have thr: "min_relevance_threshold ?cfg = 0.6" "min_coverage_threshold ?cfg = 0.7"
    by (simp_all add: default_config_def)
  have "sum_list (map (\<lambda>r. get0 (h_score r)) seven_good) / real (length seven_good) = 0.9"
    by (simp add: seven_good_def five_good_def res_def get0_def)
  moreover have "length seven_good \<ge> 5" by (simp add: seven_good_def five_good_def)
  moreover have "contents_of seven_good = Inr (replicate 7 [])"
    by (simp add: seven_good_def five_good_def res_def content_of_def numeral_eq_Suc)
  moreover have "length seven_good \<ge> 7 \<or>
      (ascii_text ''quantum'' \<and> list_all ascii_text (replicate 7 []) \<and>
       term_overlap ''quantum'' (replicate 7 []) \<ge> 0.7)"
    by (simp add: seven_good_def five_good_def)
  ultimately have seven:
    "\<exists>r. reflect exact_ops ?cfg (test_env []) ''quantum'' seven_good = Inr r \<and>
       \<not> has_reflected r \<and> ranked_chunks r = seven_good \<and> has_sufficient_info r"
    using thr by (rule reflect_sufficient)
  have len: "length five_matching = 5" by (simp add: five_matching_def)
  have ov: "term_overlap ''quantum'' (replicate 5 ''Quantum theory'') = 1"
    by (simp add: numeral_eq_Suc term_overlap_def extract_key_terms_def lower_char_def
          is_word_char_def stop_words_def Let_def)
  have "sum_list (map (\<lambda>r. get0 (h_score r)) five_matching) / real (length five_matching) = 0.9"
    by (simp add: five_matching_def res_def get0_def)
  moreover have "length five_matching \<ge> 5" using len by simp
  moreover have "contents_of five_matching = Inr (replicate 5 ''Quantum theory'')"
    by (simp add: five_matching_def res_def content_of_def numeral_eq_Suc)
  moreover have "length five_matching \<ge> 7 \<or>
      (ascii_text ''quantum'' \<and> list_all ascii_text (replicate 5 ''Quantum theory'') \<and>
       term_overlap ''quantum'' (replicate 5 ''Quantum theory'') \<ge> 0.7)"
    using ov by (simp add: ascii_text_def numeral_eq_Suc)
  ultimately have five:
    "\<exists>r. reflect exact_ops ?cfg (test_env []) ''quantum'' five_matching = Inr r \<and>
       \<not> has_reflected r \<and> ranked_chunks r = five_matching \<and> has_sufficient_info r"
    using thr by (rule reflect_sufficient)
  from seven len ov five show ?thesis by blast
qed

text \<open>
  Five results that all score 0.9 but share no term with the query \<^verbatim>\<open>quantum\<close> (for which
  the topic patterns match nothing): relevance is 0.93, coverage only 0.5, and the call
  reflects.
\<close>

theorem reflect_five_results_counterexample:
  "sum_list (map (\<lambda>r. get0 (h_score r)) five_good) / real (length five_good) = 0.9
   \<and> length five_good = 5
   \<and> map_sum id (\<lambda>r. (has_reflected r, relevance_score r, coverage_score r))
       (reflect exact_ops (default_config (\<lambda>q. [])) (test_env []) ''quantum'' five_good)
     = Inr (True, 0.93, 0.5)"
  by (simp add: reflect_eval)

subsection \<open>Failing follow-up retrievals\<close>







subsection \<open>Merging and ranking\<close>

lemma add_query_results_fold:
  "add_query_results i q rs al = fold (\<lambda>t. add_reflection_result (fst t) (fst (snd t)) (snd (snd t)))
     (map (\<lambda>r. (i, q, r)) rs) al"
  by (induction rs arbitrary: al) simp_all

lemma add_reflections_fold:
  "add_reflections i zs al =
     fold (\<lambda>t. add_reflection_result (fst t) (fst (snd t)) (snd (snd t))) (follow_up_hits i zs) al"
  by (induction zs arbitrary: i al) (auto simp: add_query_results_fold)

lemma add_reflection_result_step:
  "map_of (add_reflection_result (fst t) (fst (snd t)) (snd (snd t)) al) k =
     (if result_key (snd (snd t)) = k
      then Some (case map_of al k of Some e \<Rightarrow> bump_entry t e | None \<Rightarrow> fresh_entry t)
      else map_of al k)"
  by (auto simp: add_reflection_result_def update_conv' bump_entry_def fresh_entry_def
           split: option.splits)

lemma map_of_fold_reflections:
  "map_of (fold (\<lambda>t. add_reflection_result (fst t) (fst (snd t)) (snd (snd t))) ts al) k =
     (case map_of al k of
        Some e \<Rightarrow> Some (fold bump_entry (hits_for k ts) e)
      | None \<Rightarrow> (case hits_for k ts of [] \<Rightarrow> None
                 | t # ts' \<Rightarrow> Some (fold bump_entry ts' (fresh_entry t))))"
proof (induction ts arbitrary: al)
  case Nil
  then show ?case by (simp add: hits_for_def split: option.splits)
next
  case (Cons t ts)
  show ?case
    by (simp add: Cons.IH add_reflection_result_step hits_for_def split: option.splits)
qed

lemma map_of_add_initial:
  "map_of (add_initial oq rs al) k =
     (case map_of al k of
        Some e \<Rightarrow> Some e
      | None \<Rightarrow> map_option (initial_entry oq) (find (\<lambda>r. result_key r = k) rs))"
  by (induction rs arbitrary: al)
     (auto simp: update_conv' initial_entry_def split: option.splits)

lemma keys_add_initial:
  "distinct (map fst al) \<Longrightarrow> distinct (map fst (add_initial oq rs al))"
  by (induction rs arbitrary: al) (auto simp: distinct_update)

lemma keys_add_reflection_result:
  "distinct (map fst al) \<Longrightarrow> distinct (map fst (add_reflection_result i q r al))"
  by (auto simp: add_reflection_result_def distinct_update split: option.splits)

lemma keys_fold_reflections:
  "distinct (map fst al) \<Longrightarrow>
     distinct (map fst (fold (\<lambda>t. add_reflection_result (fst t) (fst (snd t)) (snd (snd t))) ts al))"
  by (induction ts arbitrary: al) (auto simp: keys_add_reflection_result)

lemma distinct_all_results_dict: "distinct (map fst (all_results_dict oq init rr rq))"
  by (simp add: all_results_dict_def add_reflections_fold keys_fold_reflections keys_add_initial)

lemma bump_result [simp]: "e_result (fold bump_entry ts e) = e_result e"
  by (induction ts arbitrary: e) (simp_all add: bump_entry_def)

lemma bump_source [simp]: "e_source (fold bump_entry ts e) = e_source e"
  by (induction ts arbitrary: e) (simp_all add: bump_entry_def)

lemma bump_queries: "e_queries (fold bump_entry ts e) = e_queries e @ map (\<lambda>t. fst (snd t)) ts"
  by (induction ts arbitrary: e) (simp_all add: bump_entry_def)

lemma bump_reflection_score:
  "get0 (e_reflection_score (fold bump_entry ts e)) =
     fold max (map (\<lambda>t. get0 (h_score (snd (snd t)))) ts) (get0 (e_reflection_score e))"
  by (induction ts arbitrary: e) (simp_all add: bump_entry_def get0_def max.commute)

text \<open>The entry stored under a key, in terms of the inputs.\<close>

lemma map_of_all_results_dict:
  "map_of (all_results_dict oq init rr rq) k =
     (case find (\<lambda>r. result_key r = k) init of
        Some r0 \<Rightarrow> Some (fold bump_entry (hits_for k (follow_up_hits 0 (zip rr rq))) (initial_entry oq r0))
      | None \<Rightarrow> (case hits_for k (follow_up_hits 0 (zip rr rq)) of [] \<Rightarrow> None
                 | t # ts' \<Rightarrow> Some (fold bump_entry ts' (fresh_entry t))))"
  by (simp add: all_results_dict_def add_reflections_fold map_of_fold_reflections
        map_of_add_initial split: option.splits)

lemma get0_Some: "get0 (Some x) = x"
  by (simp add: get0_def)

lemma find_append_case:
  "find P (xs @ ys) = (case find P xs of Some x \<Rightarrow> Some x | None \<Rightarrow> find P ys)"
  by (induction xs) auto

lemma final_score_entry:
  assumes "map_of (all_results_dict oq init rr rq) k = Some e"
  shows "final_score ops e = expected_final ops init (follow_up_hits 0 (zip rr rq)) k"
proof (cases "find (\<lambda>r. result_key r = k) init")
  case (Some r0)
  then have e: "e = fold bump_entry (hits_for k (follow_up_hits 0 (zip rr rq))) (initial_entry oq r0)"
    using assms by (simp add: map_of_all_results_dict)
  show ?thesis
    by (simp add: e final_score_def expected_final_def Some bump_queries initial_entry_def Let_def)
next
  case None
  then obtain t ts' where ts: "hits_for k (follow_up_hits 0 (zip rr rq)) = t # ts'"
    and e: "e = fold bump_entry ts' (fresh_entry t)"
    using assms by (auto simp: map_of_all_results_dict split: list.splits)
  have "get0 (e_reflection_score e) =
          fold max (map (\<lambda>t. get0 (h_score (snd (snd t)))) ts') (get0 (h_score (snd (snd t))))"
    by (simp add: e bump_reflection_score fresh_entry_def get0_Some)
  also have "\<dots> = Max (set (map (\<lambda>t. get0 (h_score (snd (snd t)))) (t # ts')))"
    using Max.set_eq_fold [of "get0 (h_score (snd (snd t)))" "map (\<lambda>t. get0 (h_score (snd (snd t)))) ts'"]
    by (simp only: list.map)
  finally have m: "get0 (e_reflection_score e) =
      Max (set (map (\<lambda>t. get0 (h_score (snd (snd t)))) (hits_for k (follow_up_hits 0 (zip rr rq)))))"
    by (simp add: ts)
  have "e_source e \<noteq> Initial" "length (e_queries e) = length (t # ts')"
    by (simp_all add: e bump_queries fresh_entry_def)
  then show ?thesis using m None
    by (simp add: final_score_def expected_final_def Let_def ts)
qed

lemma find_key: "find (\<lambda>r. result_key r = k) xs = Some r \<Longrightarrow> result_key r = k"
  by (induction xs) (auto split: if_splits)

lemma result_entry:
  assumes "map_of (all_results_dict oq init rr rq) k = Some e"
  shows "first_result init (follow_up_hits 0 (zip rr rq)) k = Some (e_result e)"
proof (cases "find (\<lambda>r. result_key r = k) init")
  case (Some r0)
  then have "e_result e = r0" using assms by (auto simp: map_of_all_results_dict initial_entry_def)
  then show ?thesis using Some by (simp add: first_result_def find_append_case)
next
  case None
  then obtain t ts' where ts: "hits_for k (follow_up_hits 0 (zip rr rq)) = t # ts'"
    and e: "e = fold bump_entry ts' (fresh_entry t)"
    using assms by (auto simp: map_of_all_results_dict split: list.splits)
  have "find (\<lambda>r. result_key r = k) (map (\<lambda>t. snd (snd t)) ts) =
          map_option (\<lambda>t. snd (snd t)) (case hits_for k ts of [] \<Rightarrow> None | t # _ \<Rightarrow> Some t)"
    for ts :: "(nat \<times> string \<times> hit) list"
    by (induction ts) (auto simp: hits_for_def)
  then show ?thesis using None ts e
    by (simp add: first_result_def find_append_case fresh_entry_def)
qed

lemma key_entry:
  assumes "map_of (all_results_dict oq init rr rq) k = Some e"
  shows "result_key (e_result e) = k"
  using result_entry [OF assms] unfolding first_result_def by (rule find_key)

lemma result_key_strip [simp]: "result_key (strip_entry ops e) = result_key (e_result e)"
  by (simp add: strip_entry_def result_key_def)

lemma keys_of_entries:
  "map (\<lambda>e. result_key (e_result e)) (map snd (all_results_dict oq init rr rq)) =
     map fst (all_results_dict oq init rr rq)"
proof -
  have "(k, e) \<in> set (all_results_dict oq init rr rq) \<Longrightarrow> result_key (e_result e) = k" for k e
    using key_entry distinct_all_results_dict by (metis map_of_eq_Some_iff)
  then show ?thesis by (auto simp: list_eq_iff_nth_eq)
qed

lemma distinct_map_sort_key: "distinct (map f (sort_key g xs)) = distinct (map f xs)"
  by (simp add: distinct_map)

lemma dom_all_results_dict:
  "set (map fst (all_results_dict oq init rr rq)) =
     result_key ` (set init \<union> set (map (\<lambda>t. snd (snd t)) (follow_up_hits 0 (zip rr rq))))"
proof -
  have "k \<in> fst ` set (all_results_dict oq init rr rq) \<longleftrightarrow>
        k \<in> result_key ` (set init \<union> set (map (\<lambda>t. snd (snd t)) (follow_up_hits 0 (zip rr rq))))"
    for k
  proof -
    have "k \<in> fst ` set (all_results_dict oq init rr rq) \<longleftrightarrow>
            map_of (all_results_dict oq init rr rq) k \<noteq> None"
      by (simp add: map_of_eq_None_iff)
    also have "\<dots> \<longleftrightarrow> find (\<lambda>r. result_key r = k) init \<noteq> None \<or>
                      hits_for k (follow_up_hits 0 (zip rr rq)) \<noteq> []"
      by (auto simp: map_of_all_results_dict split: option.splits list.splits)
    also have "\<dots> \<longleftrightarrow> (\<exists>r \<in> set init. result_key r = k) \<or>
                      (\<exists>t \<in> set (follow_up_hits 0 (zip rr rq)). result_key (snd (snd t)) = k)"
      by (auto simp: find_None_iff hits_for_def filter_empty_conv)
    also have "\<dots> \<longleftrightarrow>
        k \<in> result_key ` (set init \<union> set (map (\<lambda>t. snd (snd t)) (follow_up_hits 0 (zip rr rq))))"
      by auto
    finally show ?thesis .
  qed
  then have "fst ` set (all_results_dict oq init rr rq) =
      result_key ` (set init \<union> set (map (\<lambda>t. snd (snd t)) (follow_up_hits 0 (zip rr rq))))"
    by (rule set_eqI)
  then show ?thesis by (simp only: set_map)
qed

text \<open>The order in which the dictionary lists its keys.\<close>

lemma keys_add_initial_order:
  "map fst (add_initial oq rs al) = fold insert_key (map result_key rs) (map fst al)"
proof (induction rs arbitrary: al)
  case Nil
  then show ?case by simp
next
  case (Cons r rs)
  show ?case
  proof (cases "map_of al (result_key r)")
    case None
    then show ?thesis by (simp add: Cons.IH keys_update)
  next
    case (Some e)
    then have "result_key r \<in> set (map fst al)"
      using map_of_eq_None_iff [of al "result_key r"] by simp
    then show ?thesis using Some by (simp add: Cons.IH insert_key_def)
  qed
qed

lemma keys_add_reflection_order:
  "map fst (add_reflection_result i q r al) = insert_key (result_key r) (map fst al)"
  by (simp add: add_reflection_result_def keys_update split: option.splits)

lemma keys_fold_reflections_order:
  "map fst (fold (\<lambda>t. add_reflection_result (fst t) (fst (snd t)) (snd (snd t))) ts al) =
     fold insert_key (map (\<lambda>t. result_key (snd (snd t))) ts) (map fst al)"
  by (induction ts arbitrary: al) (simp_all add: keys_add_reflection_order)

lemma keys_all_results_dict:
  "map fst (all_results_dict oq init rr rq) = all_keys init (follow_up_hits 0 (zip rr rq))"
  by (simp add: all_results_dict_def add_reflections_fold keys_fold_reflections_order
        keys_add_initial_order all_keys_def dict_fromkeys_def comp_def)

lemma entry_all_results_dict:
  assumes "(k, e) \<in> set (all_results_dict oq init rr rq)"
  shows "result_key (e_result e) = k \<and>
         final_score ops e = expected_final ops init (follow_up_hits 0 (zip rr rq)) k"
proof -
  have "map_of (all_results_dict oq init rr rq) k = Some e"
    using assms distinct_all_results_dict by simp
  then show ?thesis using key_entry final_score_entry by blast
qed

text \<open>
  C2 (amended). Every entry of the merged list is a copy of the first result stored
  under its key, with \<^verbatim>\<open>score\<close> replaced by the final score and no bookkeeping key left.
  An entry first seen among the initial results gets its original score plus the query
  bonus plus 0.10; an entry first seen in a follow-up gets the maximum of its follow-up
  scores plus the query bonus (plus 0). The query bonus is 0.05 for each query on the
  entry's list, which for an initial entry includes the original query, capped at 0.15.
  The list is sorted by the stored final score, descending, and the sort is stable: the
  entries of equal final score are those of the keys with that score, in the order in
  which the keys were first met (initial results, then follow-up hits in processing
  order). The list holds each key of the initial results and the follow-up sets exactly
  once. All of this holds whatever the rounding of products and sums.
\<close>

theorem merge_and_rank_scores:
  "(\<forall>e \<in> set (merge_and_rank_results ops oq init rr rq).
      h_score e = Some (expected_final ops init (follow_up_hits 0 (zip rr rq)) (result_key e)) \<and>
      (\<exists>r. first_result init (follow_up_hits 0 (zip rr rq)) (result_key e) = Some r \<and>
           e = r\<lparr>h_score := h_score e\<rparr>))
   \<and> sorted_wrt (\<lambda>a b. \<exists>x y. h_score a = Some x \<and> h_score b = Some y \<and> y \<le> x)
        (merge_and_rank_results ops oq init rr rq)
   \<and> (\<forall>s. map result_key (filter (\<lambda>e. h_score e = Some s) (merge_and_rank_results ops oq init rr rq)) =
           filter (\<lambda>k. expected_final ops init (follow_up_hits 0 (zip rr rq)) k = s)
             (all_keys init (follow_up_hits 0 (zip rr rq))))
   \<and> distinct (map result_key (merge_and_rank_results ops oq init rr rq))
   \<and> set (map result_key (merge_and_rank_results ops oq init rr rq)) =
       result_key ` (set init \<union> set (map (\<lambda>t. snd (snd t)) (follow_up_hits 0 (zip rr rq))))"
proof (intro conjI ballI allI)
  fix e' assume "e' \<in> set (merge_and_rank_results ops oq init rr rq)"
  then obtain k e where ke: "(k, e) \<in> set (all_results_dict oq init rr rq)"
    and e': "e' = strip_entry ops e"
    by (auto simp: merge_and_rank_results_def)
  from ke have m: "map_of (all_results_dict oq init rr rq) k = Some e"
    using distinct_all_results_dict by simp
  have k: "result_key e' = k" using key_entry [OF m] e' by simp
  show "h_score e' = Some (expected_final ops init (follow_up_hits 0 (zip rr rq)) (result_key e'))"
    using final_score_entry [OF m] k e' by (simp add: strip_entry_def)
  have "first_result init (follow_up_hits 0 (zip rr rq)) (result_key e') = Some (e_result e)"
    using result_entry [OF m] k by simp
  moreover have "e' = (e_result e)\<lparr>h_score := h_score e'\<rparr>"
    using e' by (simp add: strip_entry_def)
  ultimately show "\<exists>r. first_result init (follow_up_hits 0 (zip rr rq)) (result_key e') = Some r \<and>
           e' = r\<lparr>h_score := h_score e'\<rparr>" by blast
next
  have "sorted (map (\<lambda>e. - final_score ops e)
          (sort_key (\<lambda>e. - final_score ops e) (map snd (all_results_dict oq init rr rq))))"
    by simp
  then have "sorted_wrt (\<lambda>a b. final_score ops b \<le> final_score ops a)
          (sort_key (\<lambda>e. - final_score ops e) (map snd (all_results_dict oq init rr rq)))"
    by (simp add: sorted_map)
  then show "sorted_wrt (\<lambda>a b. \<exists>x y. h_score a = Some x \<and> h_score b = Some y \<and> y \<le> x)
          (merge_and_rank_results ops oq init rr rq)"
    by (simp add: merge_and_rank_results_def sorted_wrt_map strip_entry_def)
next
  fix s
  let ?E = "map snd (all_results_dict oq init rr rq)"
  have "filter (\<lambda>e. h_score e = Some s) (merge_and_rank_results ops oq init rr rq) =
        map (strip_entry ops)
          (filter (\<lambda>e. final_score ops e = s) (sort_key (\<lambda>e. - final_score ops e) ?E))"
    by (simp add: merge_and_rank_results_def filter_map comp_def strip_entry_def)
  also have "filter (\<lambda>e. final_score ops e = s) (sort_key (\<lambda>e. - final_score ops e) ?E) =
        filter (\<lambda>e. final_score ops e = s) ?E"
    using sort_key_stable [of "\<lambda>e. - final_score ops e" "- s" ?E] by simp
  finally have "map result_key
        (filter (\<lambda>e. h_score e = Some s) (merge_and_rank_results ops oq init rr rq)) =
      map (\<lambda>e. result_key (e_result e)) (filter (\<lambda>e. final_score ops e = s) ?E)"
    by (simp add: comp_def)
  also have "\<dots> = map (\<lambda>k. k)
      (filter (\<lambda>k. expected_final ops init (follow_up_hits 0 (zip rr rq)) k = s)
         (map fst (all_results_dict oq init rr rq)))"
  proof (rule filter_entries, rule ballI)
    fix x assume "x \<in> set (all_results_dict oq init rr rq)"
    then have "(fst x, snd x) \<in> set (all_results_dict oq init rr rq)" by simp
    from entry_all_results_dict [OF this, of ops]
    show "result_key (e_result (snd x)) = fst x \<and>
          ((final_score ops (snd x) = s) \<longleftrightarrow>
           (expected_final ops init (follow_up_hits 0 (zip rr rq)) (fst x) = s))"
      by simp
  qed
  finally show "map result_key
        (filter (\<lambda>e. h_score e = Some s) (merge_and_rank_results ops oq init rr rq)) =
      filter (\<lambda>k. expected_final ops init (follow_up_hits 0 (zip rr rq)) k = s)
        (all_keys init (follow_up_hits 0 (zip rr rq)))"
    by (simp add: keys_all_results_dict)
next
  have "map result_key (merge_and_rank_results ops oq init rr rq) =
          map (\<lambda>e. result_key (e_result e))
            (sort_key (\<lambda>e. - final_score ops e) (map snd (all_results_dict oq init rr rq)))"
    by (simp add: merge_and_rank_results_def comp_def)
  then show "distinct (map result_key (merge_and_rank_results ops oq init rr rq))"
    using distinct_all_results_dict [of oq init rr rq]
    by (simp only: distinct_map_sort_key keys_of_entries)
next
  have "set (map result_key (merge_and_rank_results ops oq init rr rq)) =
          set (map (\<lambda>e. result_key (e_result e)) (map snd (all_results_dict oq init rr rq)))"
    by (simp add: merge_and_rank_results_def image_image)
  then show "set (map result_key (merge_and_rank_results ops oq init rr rq)) =
       result_key ` (set init \<union> set (map (\<lambda>t. snd (snd t)) (follow_up_hits 0 (zip rr rq))))"
    by (simp only: keys_of_entries dom_all_results_dict)
qed

text \<open>
  A single initial result with score 0.3 and no follow-up results: the final score is
  (0.3 + min (1 * 0.05, 0.15)) + 0.10 in any arithmetic, which in exact arithmetic is
  0.45, not 0.3 + 0.10.
\<close>

theorem merge_and_rank_counterexample:
  "map h_score (merge_and_rank_results exact_ops ''q'' [res ''d1'' 0 0.3 ''x''] [] []) = [Some 0.45]
   \<and> (0.45 :: real) \<noteq> 0.3 + 0.10
   \<and> (\<forall>ops. map h_score (merge_and_rank_results ops ''q'' [res ''d1'' 0 0.3 ''x''] [] []) =
         [Some (fadd ops (fadd ops 0.3 (min (fmul ops 1 (lit ops 0.05)) (lit ops 0.15)))
                         (lit ops 0.1))])"
  by (simp add: reflect_eval)

text \<open>
  An example in exact arithmetic. The initial results are d1:0 (0.3), d1:1 (0.5) and
  d1:2 (0.5); one follow-up query returns d1:0 (0.5) and d2:1 (0.7). The final scores
  are 0.3 + 0.10 + 0.10 = 0.5 for d1:0, 0.5 + 0.05 + 0.10 = 0.65 for d1:1 and for d1:2,
  and 0.7 + 0.05 = 0.75 for d2:1. The sort moves d2:1, met last, to the front and d1:0,
  met first, to the end; d1:1 and d1:2 tie and keep the order in which their keys were
  first met.
\<close>

theorem merge_and_rank_scores_witness:
  "map (\<lambda>e. (result_key e, h_score e))
     (merge_and_rank_results exact_ops ''q''
        [res ''d1'' 0 0.3 ''x'', res ''d1'' 1 0.5 ''y'', res ''d1'' 2 0.5 ''z'']
        [[res ''d1'' 0 0.5 ''x'', res ''d2'' 1 0.7 ''w'']] [''q regarding x''])
     = [(''d2:1'', Some 0.75), (''d1:1'', Some 0.65), (''d1:2'', Some 0.65), (''d1:0'', Some 0.5)]
   \<and> map result_key (filter (\<lambda>e. h_score e = Some 0.65)
        (merge_and_rank_results exact_ops ''q''
           [res ''d1'' 0 0.3 ''x'', res ''d1'' 1 0.5 ''y'', res ''d1'' 2 0.5 ''z'']
           [[res ''d1'' 0 0.5 ''x'', res ''d2'' 1 0.7 ''w'']] [''q regarding x'']))
     = filter (\<lambda>k. expected_final exact_ops
           [res ''d1'' 0 0.3 ''x'', res ''d1'' 1 0.5 ''y'', res ''d1'' 2 0.5 ''z'']
           (follow_up_hits 0 (zip [[res ''d1'' 0 0.5 ''x'', res ''d2'' 1 0.7 ''w'']]
                                  [''q regarding x''])) k = 0.65)
         (all_keys [res ''d1'' 0 0.3 ''x'', res ''d1'' 1 0.5 ''y'', res ''d1'' 2 0.5 ''z'']
           (follow_up_hits 0 (zip [[res ''d1'' 0 0.5 ''x'', res ''d2'' 1 0.7 ''w'']]
                                  [''q regarding x''])))
   \<and> (\<exists>e \<in> set (merge_and_rank_results exact_ops ''q''
           [res ''d1'' 0 0.3 ''x'', res ''d1'' 1 0.5 ''y'', res ''d1'' 2 0.5 ''z'']
           [[res ''d1'' 0 0.5 ''x'', res ''d2'' 1 0.7 ''w'']] [''q regarding x'']).
         h_score e =
           Some (expected_final exact_ops
                   [res ''d1'' 0 0.3 ''x'', res ''d1'' 1 0.5 ''y'', res ''d1'' 2 0.5 ''z'']
                   (follow_up_hits 0 (zip [[res ''d1'' 0 0.5 ''x'', res ''d2'' 1 0.7 ''w'']]
                                          [''q regarding x'']))
                   (result_key e)))"
proof -
  let ?init = "[res ''d1'' 0 0.3 ''x'', res ''d1'' 1 0.5 ''y'', res ''d1'' 2 0.5 ''z'']"
  let ?rr = "[[res ''d1'' 0 0.5 ''x'', res ''d2'' 1 0.7 ''w'']]"
  let ?rq = "[''q regarding x'']"
  let ?out = "merge_and_rank_results exact_ops ''q'' ?init ?rr ?rq"
  note claim = merge_and_rank_scores [of exact_ops "''q''" ?init ?rr ?rq]
  have out: "map (\<lambda>e. (result_key e, h_score e)) ?out
     = [(''d2:1'', Some 0.75), (''d1:1'', Some 0.65), (''d1:2'', Some 0.65), (''d1:0'', Some 0.5)]"
    by (simp add: reflect_eval)
  have stable: "map result_key (filter (\<lambda>e. h_score e = Some 0.65) ?out) =
      filter (\<lambda>k. expected_final exact_ops ?init (follow_up_hits 0 (zip ?rr ?rq)) k = 0.65)
        (all_keys ?init (follow_up_hits 0 (zip ?rr ?rq)))"
    using claim by blast
  have "?out \<noteq> []" using out by auto
  then obtain e where e: "e \<in> set ?out" by (cases ?out) auto
  with claim
  have "h_score e =
      Some (expected_final exact_ops ?init (follow_up_hits 0 (zip ?rr ?rq)) (result_key e))"
    by blast
  with e out stable show ?thesis by blast
qed

section \<open>Properties of the segmenter\<close>

subsection \<open>Unfolding the loop\<close>

lemma fixed_loop_exit:
  "\<not> start < int (length text) \<Longrightarrow> fixed_loop text cs ov start chunks = Some chunks"
  by (subst fixed_loop.simps) simp

lemma fixed_loop_break:
  "start < int (length text) \<Longrightarrow>
   window_end text cs start - ov + cs > int (length text) \<Longrightarrow>
   int (length text) - (window_end text cs start - ov) < cs div 2 \<Longrightarrow>
   fixed_loop text cs ov start chunks =
     Some (chunks @ [make_chunk text start (window_end text cs start)])"
  by (subst fixed_loop.simps) simp

lemma fixed_loop_continue:
  "start < int (length text) \<Longrightarrow>
   \<not> (window_end text cs start - ov + cs > int (length text) \<and>
      int (length text) - (window_end text cs start - ov) < cs div 2) \<Longrightarrow>
   fixed_loop text cs ov start chunks =
     fixed_loop text cs ov (window_end text cs start - ov)
       (chunks @ [make_chunk text start (window_end text cs start)])"
  by (subst fixed_loop.simps) auto

subsection \<open>The window end\<close>

lemma py_rfind_bound:
  "py_rfind text sub s e \<noteq> - 1 \<Longrightarrow> py_rfind text sub s e \<le> int (length text) - int (length sub)"
proof -
  assume a: "py_rfind text sub s e \<noteq> - 1"
  let ?found = "filter (\<lambda>i. take (length sub) (drop (nat i) text) = sub)
                  [py_clamp (length text) s..py_clamp (length text) e - int (length sub)]"
  from a have ne: "?found \<noteq> []" and r: "py_rfind text sub s e = last ?found"
    by (auto simp: py_rfind_def Let_def split: if_splits)
  have "last ?found \<in> set ?found" using ne by (rule last_in_set)
  then have "last ?found \<le> py_clamp (length text) e - int (length sub)" by simp
  moreover have "py_clamp (length text) e \<le> int (length text)" by (simp add: py_clamp_def)
  ultimately show ?thesis using r by simp
qed

lemma window_end_le:
  assumes "0 < cs" "0 \<le> start" "start < int (length text)"
  shows "window_end text cs start \<le> int (length text)"
proof (cases "py_rfind text ''. '' start (start + cs) = - 1")
  case True
  then show ?thesis using assms by (simp add: window_end_def Let_def)
next
  case False
  from py_rfind_bound [OF this] show ?thesis
    by (simp add: window_end_def Let_def)
qed

lemma window_end_far:
  assumes "0 < cs" "start + cs < int (length text)"
  shows "start + cs div 2 < window_end text cs start"
proof -
  have "cs div 2 < cs" using assms(1) by linarith
  then show ?thesis using assms by (simp add: window_end_def Let_def)
qed

lemma window_end_last:
  assumes "\<not> start + cs < int (length text)"
  shows "window_end text cs start = int (length text)"
  using assms by (simp add: window_end_def Let_def)

subsection \<open>Extending the chunk list\<close>

lemma chunks_ok_single:
  assumes "0 \<le> s" "s < e" "e \<le> int (length text)" "s = 0"
  shows "chunks_ok text [make_chunk text s e]"
  using assms by (auto simp: chunks_ok_def make_chunk_def)

lemma chunks_ok_snoc:
  assumes ok: "chunks_ok text chunks" and ne: "chunks \<noteq> []"
    and s: "start_char (last chunks) \<le> s" "s \<le> end_char (last chunks)"
    and e: "s < e" "e \<le> int (length text)" and s0: "0 \<le> s"
  shows "chunks_ok text (chunks @ [make_chunk text s e])"
proof -
  have sorted: "sorted_wrt (\<lambda>a b. start_char a \<le> start_char b) (chunks @ [make_chunk text s e])"
    using ok s(1) by (fastforce simp: chunks_ok_def sorted_wrt_append make_chunk_def)
  have each: "\<forall>c \<in> set (chunks @ [make_chunk text s e]).
      0 \<le> start_char c \<and> start_char c < end_char c \<and> end_char c \<le> int (length text) \<and>
      ch_text c = py_slice text (start_char c) (end_char c)"
    using ok e s0 by (auto simp: chunks_ok_def make_chunk_def)
  have lst: "\<forall>c \<in> set (chunks @ [make_chunk text s e]).
      start_char c \<le> start_char (last (chunks @ [make_chunk text s e]))"
    using ok s(1) by (fastforce simp: chunks_ok_def make_chunk_def)
  have cover: "\<exists>c \<in> set (chunks @ [make_chunk text s e]). start_char c \<le> i \<and> i < end_char c"
    if i: "0 \<le> i" "i < e" for i
  proof (cases "i < end_char (last chunks)")
    case True
    then obtain c where "c \<in> set chunks" "start_char c \<le> i" "i < end_char c"
      using ok i(1) unfolding chunks_ok_def by blast
    then show ?thesis by auto
  next
    case False
    then have "s \<le> i" using s(2) by simp
    then show ?thesis using i(2) by (auto simp: make_chunk_def)
  qed
  show ?thesis
    unfolding chunks_ok_def using sorted each lst cover by (simp add: make_chunk_def)
qed

subsection \<open>Termination and result of the loop\<close>

lemma fixed_loop_total:
  assumes cs: "0 < cs" and ov: "0 \<le> ov" "ov < cs div 2"
  shows "0 \<le> start \<Longrightarrow> start < int (length text) \<Longrightarrow>
         (chunks = [] \<and> start = 0) \<or>
         (chunks \<noteq> [] \<and> chunks_ok text chunks \<and> start_char (last chunks) \<le> start \<and>
          start \<le> end_char (last chunks)) \<Longrightarrow>
         \<exists>res. fixed_loop text cs ov start chunks = Some res \<and> res \<noteq> [] \<and> chunks_ok text res \<and>
           (end_char (last res) = int (length text) \<or>
            int (length text) - (end_char (last res) - ov) < cs div 2)"
proof (induction "nat (int (length text) - start)" arbitrary: start chunks rule: less_induct)
  case less
  let ?n = "int (length text)"
  let ?e = "window_end text cs start"
  let ?c = "make_chunk text start ?e"
  have e_le: "?e \<le> ?n" using window_end_le [OF cs less.prems(1,2)] .
  have e_gt: "start < ?e"
  proof (cases "start + cs < ?n")
    case True
    from window_end_far [OF cs this] cs show ?thesis by simp
  next
    case False
    from window_end_last [OF this] less.prems(2) show ?thesis by simp
  qed
  have ok': "chunks_ok text (chunks @ [?c])"
    using less.prems(3)
  proof
    assume "chunks = [] \<and> start = 0"
    then show ?thesis using chunks_ok_single [of start "?e" "text"] e_gt e_le by simp
  next
    assume a: "chunks \<noteq> [] \<and> chunks_ok text chunks \<and> start_char (last chunks) \<le> start \<and>
          start \<le> end_char (last chunks)"
    then show ?thesis using chunks_ok_snoc [of "text" chunks start "?e"] e_gt e_le less.prems(1)
      by simp
  qed
  have last': "end_char (last (chunks @ [?c])) = ?e" "start_char (last (chunks @ [?c])) = start"
    by (simp_all add: make_chunk_def)
  show ?case
  proof (cases "?e - ov + cs > ?n \<and> ?n - (?e - ov) < cs div 2")
    case True
    then have "fixed_loop text cs ov start chunks = Some (chunks @ [?c])"
      using fixed_loop_break [OF less.prems(2)] by simp
    moreover have "end_char (last (chunks @ [?c])) = ?n \<or>
        ?n - (end_char (last (chunks @ [?c])) - ov) < cs div 2"
      using True last'(1) by simp
    ultimately show ?thesis using ok' by simp
  next
    case False
    then have step: "fixed_loop text cs ov start chunks = fixed_loop text cs ov (?e - ov) (chunks @ [?c])"
      using fixed_loop_continue [OF less.prems(2)] by simp
    have far: "start + cs < ?n"
    proof (rule ccontr)
      assume "\<not> start + cs < ?n"
      from window_end_last [OF this] have "?e = ?n" .
      then show False using False ov cs by simp
    qed
    have adv: "start + cs div 2 < ?e" by (rule window_end_far [OF cs far])
    have e_lt: "?e < ?n"
    proof -
      have "?e \<le> start + cs"
      proof (cases "py_rfind text ''. '' start (start + cs) = - 1")
        case True
        then show ?thesis using far cs less.prems(1) by (simp add: window_end_def Let_def)
      next
        case False
        have "py_rfind text ''. '' start (start + cs) \<le> py_clamp (length text) (start + cs) - 2"
        proof -
          let ?found = "filter (\<lambda>i. take (length ''. '') (drop (nat i) text) = ''. '')
              [py_clamp (length text) start..py_clamp (length text) (start + cs) - int (length ''. '')]"
          from False have ne: "?found \<noteq> []"
            and r: "py_rfind text ''. '' start (start + cs) = last ?found"
            by (auto simp: py_rfind_def Let_def split: if_splits)
          have "last ?found \<in> set ?found" using ne by (rule last_in_set)
          then show ?thesis using r by simp
        qed
        moreover have "py_clamp (length text) (start + cs) = start + cs"
          using far less.prems(1) cs by (simp add: py_clamp_def)
        ultimately show ?thesis using far by (simp add: window_end_def Let_def)
      qed
      then show ?thesis using far by simp
    qed
    have s': "start < ?e - ov" "?e - ov < ?n" "0 \<le> ?e - ov"
      using adv ov e_lt less.prems(1) by simp_all
    have m: "nat (?n - (?e - ov)) < nat (?n - start)" using s' less.prems(2) by simp
    have pre: "(chunks @ [?c] = [] \<and> ?e - ov = 0) \<or>
         (chunks @ [?c] \<noteq> [] \<and> chunks_ok text (chunks @ [?c]) \<and>
          start_char (last (chunks @ [?c])) \<le> ?e - ov \<and>
          ?e - ov \<le> end_char (last (chunks @ [?c])))"
      using ok' last' s'(1) ov(1) by simp
    from less.hyps [OF m s'(3) s'(2) pre] step show ?thesis by simp
  qed
qed

lemma py_slice_all: "py_slice text 0 (int (length text)) = text"
  by (simp add: py_slice_def py_clamp_def)

text \<open>
  C3 (amended). For every text and every chunk size above 0, with an overlap that is
  not negative and smaller than half the chunk size (rounded down), or with any overlap
  when the text fits into one chunk, fixed-mode segmentation returns a non-empty list
  of chunks whose start offsets do not decrease, each carrying the text of its span,
  and whose spans cover the text from 0 up to the end of the last chunk. That end is
  the end of the text, unless the window that would follow (from the end of the last
  chunk minus the overlap) is shorter than half the chunk size: then the rest is dropped.
\<close>

theorem fixed_chunks_cover:
  assumes "0 < chunk_size"
    and "int (length text) \<le> chunk_size \<or> (0 \<le> chunk_overlap \<and> chunk_overlap < chunk_size div 2)"
  shows "\<exists>chunks. create_fixed_chunks text chunk_size chunk_overlap = Some chunks \<and> chunks \<noteq> [] \<and>
           sorted_wrt (\<lambda>a b. start_char a \<le> start_char b) chunks \<and>
           (\<forall>i. 0 \<le> i \<and> i < end_char (last chunks) \<longrightarrow>
                (\<exists>c \<in> set chunks. start_char c \<le> i \<and> i < end_char c)) \<and>
           (end_char (last chunks) = int (length text) \<or>
            int (length text) - (end_char (last chunks) - chunk_overlap) < chunk_size div 2) \<and>
           (\<forall>c \<in> set chunks. 0 \<le> start_char c \<and> start_char c \<le> end_char c \<and>
                end_char c \<le> int (length text) \<and>
                ch_text c = py_slice text (start_char c) (end_char c))"
proof (cases "int (length text) \<le> chunk_size")
  case True
  then show ?thesis by (simp add: create_fixed_chunks_def py_slice_all)
next
  case False
  with assms(2) have ov: "0 \<le> chunk_overlap" "chunk_overlap < chunk_size div 2" by simp_all
  have len: "0 < int (length text)" using False assms(1) by linarith
  have "\<exists>res. fixed_loop text chunk_size chunk_overlap 0 [] = Some res \<and> res \<noteq> [] \<and>
          chunks_ok text res \<and>
          (end_char (last res) = int (length text) \<or>
           int (length text) - (end_char (last res) - chunk_overlap) < chunk_size div 2)"
    using fixed_loop_total [OF assms(1) ov, of 0 "text" "[]"] len by simp
  then obtain res where res: "fixed_loop text chunk_size chunk_overlap 0 [] = Some res" "res \<noteq> []"
    "chunks_ok text res"
    "end_char (last res) = int (length text) \<or>
       int (length text) - (end_char (last res) - chunk_overlap) < chunk_size div 2"
    by blast
  have "create_fixed_chunks text chunk_size chunk_overlap = Some res"
    using False res(1) by (simp add: create_fixed_chunks_def)
  moreover have "sorted_wrt (\<lambda>a b. start_char a \<le> start_char b) res"
    using res(3) by (simp add: chunks_ok_def)
  moreover have "\<forall>i. 0 \<le> i \<and> i < end_char (last res) \<longrightarrow>
                (\<exists>c \<in> set res. start_char c \<le> i \<and> i < end_char c)"
    using res(3) by (simp add: chunks_ok_def)
  moreover have "\<forall>c \<in> set res. 0 \<le> start_char c \<and> start_char c \<le> end_char c \<and>
                end_char c \<le> int (length text) \<and>
                ch_text c = py_slice text (start_char c) (end_char c)"
    using res(3) by (fastforce simp: chunks_ok_def)
  ultimately show ?thesis using res(2,4) by blast
qed

text \<open>
  Twenty-two characters, chunk size 10, overlap 1: two chunks, [0, 10) and [9, 19); the
  remaining window [18, 22) is shorter than 5 and the last three characters are dropped.
\<close>

theorem fixed_chunks_cover_witness:
  "create_fixed_chunks ''abcdefghijklmnopqrstuv'' 10 1 =
     Some [\<lparr>ch_text = ''abcdefghij'', start_char = 0, end_char = 10\<rparr>,
           \<lparr>ch_text = ''jklmnopqrs'', start_char = 9, end_char = 19\<rparr>]
   \<and> (\<exists>chunks. create_fixed_chunks ''abcdefghijklmnopqrstuv'' 10 1 = Some chunks \<and>
         sorted_wrt (\<lambda>a b. start_char a \<le> start_char b) chunks \<and>
         int (length ''abcdefghijklmnopqrstuv'') - (end_char (last chunks) - 1) < 10 div 2)"
proof -
  have ev: "create_fixed_chunks ''abcdefghijklmnopqrstuv'' 10 1 =
     Some [\<lparr>ch_text = ''abcdefghij'', start_char = 0, end_char = 10\<rparr>,
           \<lparr>ch_text = ''jklmnopqrs'', start_char = 9, end_char = 19\<rparr>]"
    by code_simp
  have "(0::int) < 10" by simp
  moreover have "int (length ''abcdefghijklmnopqrstuv'') \<le> 10 \<or> ((0::int) \<le> 1 \<and> (1::int) < 10 div 2)"
    by simp
  ultimately obtain chunks where c:
    "create_fixed_chunks ''abcdefghijklmnopqrstuv'' 10 1 = Some chunks"
    "sorted_wrt (\<lambda>a b. start_char a \<le> start_char b) chunks"
    using fixed_chunks_cover [of 10 "''abcdefghijklmnopqrstuv''" 1] by blast
  from c(1) ev have "int (length ''abcdefghijklmnopqrstuv'') - (end_char (last chunks) - 1) < 10 div 2"
    by auto
  with c ev show ?thesis by blast
qed

subsection \<open>Overlaps outside that range\<close>

lemma window_end_examples:
  "window_end ''abcdefghijkl'' 10 0 = 10"
  "window_end ''abcdefghijkl'' 10 5 = 12"
  "window_end ''abcdefghijkl'' 10 7 = 12"
  by code_simp+

lemma fixed_loop_stuck: "fixed_loop ''abcdefghijkl'' 10 5 7 chunks = None"
proof (rule ccontr)
  assume "fixed_loop ''abcdefghijkl'' 10 5 7 chunks \<noteq> None"
  then obtain y where y: "fixed_loop ''abcdefghijkl'' 10 5 7 chunks = Some y" by auto
  have "\<not> (''abcdefghijkl'' = ''abcdefghijkl'' \<and> (10::int) = 10 \<and> (5::int) = 5 \<and> (7::int) = 7)"
  proof (rule fixed_loop.raw_induct
      [where P = "\<lambda>t cs ov s ch r. \<not> (t = ''abcdefghijkl'' \<and> cs = 10 \<and> ov = 5 \<and> s = 7)", OF _ y])
    fix f :: "string \<Rightarrow> int \<Rightarrow> int \<Rightarrow> int \<Rightarrow> chunk list \<Rightarrow> chunk list option"
      and t cs ov s ch r
    assume ih: "\<And>t cs ov s ch r. f t cs ov s ch = Some r \<Longrightarrow>
                  \<not> (t = ''abcdefghijkl'' \<and> cs = 10 \<and> ov = 5 \<and> s = 7)"
      and body: "(if s < int (length t)
           then if int (length t) < window_end t cs s - ov + cs \<and>
                   int (length t) - (window_end t cs s - ov) < cs div 2
                then Some (ch @ [make_chunk t s (window_end t cs s)])
                else f t cs ov (window_end t cs s - ov) (ch @ [make_chunk t s (window_end t cs s)])
           else Some ch) = Some r"
    show "\<not> (t = ''abcdefghijkl'' \<and> cs = 10 \<and> ov = 5 \<and> s = 7)"
    proof
      assume a: "t = ''abcdefghijkl'' \<and> cs = 10 \<and> ov = 5 \<and> s = 7"
      have "f ''abcdefghijkl'' 10 5 7 (ch @ [make_chunk ''abcdefghijkl'' 7 12]) = Some r"
        using body a by (simp add: window_end_examples)
      from ih [OF this] show False by simp
    qed
  qed
  then show False by simp
qed

text \<open>
  Twelve characters with chunk size 10 and overlap 5 (half the chunk size): after the
  chunks [0, 10) and [5, 12) the start stays at 7 and the loop never returns. Twenty-five
  characters with overlap -3: the chunks [0, 10) and [13, 23) leave [10, 13) uncovered.
\<close>

theorem fixed_chunks_counterexample:
  "create_fixed_chunks ''abcdefghijkl'' 10 5 = None
   \<and> create_fixed_chunks ''aaaaaaaaaaaaaaaaaaaaaaaaa'' 10 (- 3) =
       Some [\<lparr>ch_text = ''aaaaaaaaaa'', start_char = 0, end_char = 10\<rparr>,
             \<lparr>ch_text = ''aaaaaaaaaa'', start_char = 13, end_char = 23\<rparr>]"
proof
  have "create_fixed_chunks ''abcdefghijkl'' 10 5 = fixed_loop ''abcdefghijkl'' 10 5 0 []"
    by (simp add: create_fixed_chunks_def)
  also have "\<dots> = fixed_loop ''abcdefghijkl'' 10 5 (window_end ''abcdefghijkl'' 10 0 - 5)
          ([] @ [make_chunk ''abcdefghijkl'' 0 (window_end ''abcdefghijkl'' 10 0)])"
    by (rule fixed_loop_continue) (simp_all add: window_end_examples)
  also have "\<dots> = fixed_loop ''abcdefghijkl'' 10 5 5 [make_chunk ''abcdefghijkl'' 0 10]"
    by (simp add: window_end_examples)
  also have "\<dots> = fixed_loop ''abcdefghijkl'' 10 5 (window_end ''abcdefghijkl'' 10 5 - 5)
          ([make_chunk ''abcdefghijkl'' 0 10] @
           [make_chunk ''abcdefghijkl'' 5 (window_end ''abcdefghijkl'' 10 5)])"
    by (rule fixed_loop_continue) (simp_all add: window_end_examples)
  also have "\<dots> = fixed_loop ''abcdefghijkl'' 10 5 7
          [make_chunk ''abcdefghijkl'' 0 10, make_chunk ''abcdefghijkl'' 5 12]"
    by (simp add: window_end_examples)
  also have "\<dots> = None" by (rule fixed_loop_stuck)
  finally show "create_fixed_chunks ''abcdefghijkl'' 10 5 = None" .
  show "create_fixed_chunks ''aaaaaaaaaaaaaaaaaaaaaaaaa'' 10 (- 3) =
       Some [\<lparr>ch_text = ''aaaaaaaaaa'', start_char = 0, end_char = 10\<rparr>,
             \<lparr>ch_text = ''aaaaaaaaaa'', start_char = 13, end_char = 23\<rparr>]"
    by code_simp
qed

subsection \<open>Empty text and chunk sizes that are not positive\<close>

lemma create_adaptive_chunks_empty: "create_adaptive_chunks [] chunk_size chunk_overlap = Some []"
  by (simp add: create_adaptive_chunks_def adaptive_step_def py_strip_def)

text \<open>
  C4 (amended). On the empty text adaptive mode returns no chunk. Fixed mode returns
  one empty chunk with span [0, 0) when the chunk size is 0 or more, and no chunk when
  it is negative. A chunk size of 0 or less is not rejected: the call returns as just
  said.
\<close>

theorem create_chunks_empty_text:
  "create_chunks [] chunk_size chunk_overlap True = Some []
   \<and> create_chunks [] chunk_size chunk_overlap False =
       (if 0 \<le> chunk_size then Some [\<lparr>ch_text = [], start_char = 0, end_char = 0\<rparr>] else Some [])"
  by (simp add: create_chunks_def create_adaptive_chunks_empty create_fixed_chunks_def
        fixed_loop_exit)

text \<open>
  The empty text in fixed mode with the default sizes gives one chunk, not none; and a
  chunk size of 0 is accepted, on the empty text and on a non-empty one (here with a
  negative overlap, which lets the loop end).
\<close>

theorem create_chunks_counterexample:
  "create_chunks [] 1000 200 False = Some [\<lparr>ch_text = [], start_char = 0, end_char = 0\<rparr>]
   \<and> create_chunks [] 0 200 False = Some [\<lparr>ch_text = [], start_char = 0, end_char = 0\<rparr>]
   \<and> create_chunks ''abc'' 0 (- 5) False = Some [\<lparr>ch_text = [], start_char = 0, end_char = 0\<rparr>]"
  by code_simp

section \<open>Properties of the memory hierarchy manager\<close>

subsection \<open>Deleting the lowest rows of a scope\<close>

lemma delete_lowest_filter:
  assumes "distinct (map mi_id table)"
  shows "delete_lowest memory_type user_id n table =
           filter (\<lambda>r. r \<notin> set (take n (sort_key prune_key (filter (in_scope memory_type user_id) table))))
                  table"
proof -
  let ?victims = "take n (sort_key prune_key (filter (in_scope memory_type user_id) table))"
  have sub: "set ?victims \<subseteq> set table"
    using set_take_subset [of n "sort_key prune_key (filter (in_scope memory_type user_id) table)"]
    by auto
  have inj: "inj_on mi_id (set table)" using assms by (simp add: distinct_map)
  have "mi_id r \<in> set (map mi_id ?victims) \<longleftrightarrow> r \<in> set ?victims" if "r \<in> set table" for r
  proof
    assume "mi_id r \<in> set (map mi_id ?victims)"
    then obtain v where v: "v \<in> set ?victims" "mi_id v = mi_id r" by auto
    then have "v = r" using inj sub that by (auto dest: inj_onD)
    with v show "r \<in> set ?victims" by simp
  next
    assume "r \<in> set ?victims"
    then show "mi_id r \<in> set (map mi_id ?victims)" by simp
  qed
  then show ?thesis
    unfolding delete_lowest_def Let_def by (intro filter_cong) auto
qed

lemma length_filter_notin:
  assumes "distinct xs" "distinct vs" "set vs \<subseteq> set xs"
  shows "length (filter (\<lambda>r. r \<notin> set vs) xs) = length xs - length vs"
proof -
  have "distinct (filter (\<lambda>r. r \<in> set vs) xs)" using assms(1) by simp
  moreover have "set (filter (\<lambda>r. r \<in> set vs) xs) = set vs" using assms(3) by auto
  ultimately have "length (filter (\<lambda>r. r \<in> set vs) xs) = length vs"
    using assms(2) by (metis distinct_card)
  moreover have "length (filter (\<lambda>r. r \<in> set vs) xs) + length (filter (\<lambda>r. \<not> r \<in> set vs) xs) = length xs"
    by (rule sum_length_filter_compl)
  ultimately show ?thesis by simp
qed

lemma lowest_below_rest:
  assumes "v \<in> set (take n (sort_key f xs))" "k \<in> set xs" "k \<notin> set (take n (sort_key f xs))"
  shows "f v \<le> f k"
proof -
  have "k \<in> set (sort_key f xs)" using assms(2) by simp
  then have "k \<in> set (take n (sort_key f xs) @ drop n (sort_key f xs))"
    by (simp only: append_take_drop_id)
  then have k: "k \<in> set (drop n (sort_key f xs))" using assms(3) by (simp only: set_append) blast
  have "sorted (map f (sort_key f xs))" by simp
  then have "sorted (map f (take n (sort_key f xs) @ drop n (sort_key f xs)))"
    by (simp only: append_take_drop_id)
  then have "\<forall>x \<in> set (take n (sort_key f xs)). \<forall>y \<in> set (drop n (sort_key f xs)). f x \<le> f y"
    unfolding map_append sorted_append by auto
  with assms(1) k show ?thesis by blast
qed

text \<open>The effect of one pruning pass on a scope that is over its positive limit.\<close>

lemma prune_memory_excess:
  assumes cap: "max_items_of cfg memory_type = Some cap" "0 < cap"
    and ids: "distinct (map mi_id table)"
    and over: "int (length (filter (in_scope memory_type user_id) table)) > cap"
  shows "\<exists>victims.
           prune_memory cfg memory_type user_id table = filter (\<lambda>r. r \<notin> set victims) table \<and>
           set victims \<subseteq> set (filter (in_scope memory_type user_id) table) \<and> distinct victims \<and>
           int (length victims) = int (length (filter (in_scope memory_type user_id) table)) - cap \<and>
           int (length (filter (in_scope memory_type user_id)
                          (prune_memory cfg memory_type user_id table))) = cap \<and>
           (\<forall>v \<in> set victims.
              \<forall>k \<in> set (filter (in_scope memory_type user_id)
                             (prune_memory cfg memory_type user_id table)).
                prune_key v \<le> prune_key k)"
proof -
  let ?scoped = "filter (in_scope memory_type user_id) table"
  let ?n = "nat (int (length ?scoped) - cap)"
  let ?victims = "take ?n (sort_key prune_key ?scoped)"
  have dt: "distinct table" using ids by (simp add: distinct_map)
  have p: "prune_memory cfg memory_type user_id table = filter (\<lambda>r. r \<notin> set ?victims) table"
    using cap over by (simp add: prune_memory_def Let_def delete_lowest_filter [OF ids])
  have sub: "set ?victims \<subseteq> set ?scoped"
    using set_take_subset [of ?n "sort_key prune_key ?scoped"] by simp
  have dv: "distinct ?victims" using dt by simp
  have n: "?n \<le> length ?scoped" using cap(2) by simp
  have lv: "length ?victims = ?n" using n by simp
  have "filter (in_scope memory_type user_id) (filter (\<lambda>r. r \<notin> set ?victims) table) =
          filter (\<lambda>r. r \<notin> set ?victims) ?scoped"
    by (simp add: conj_commute)
  then have "length (filter (in_scope memory_type user_id)
               (prune_memory cfg memory_type user_id table)) = length ?scoped - ?n"
    using length_filter_notin [of ?scoped ?victims] dt dv sub lv by (simp add: p)
  then have after: "int (length (filter (in_scope memory_type user_id)
               (prune_memory cfg memory_type user_id table))) = cap"
    using over cap(2) by simp
  have low: "prune_key v \<le> prune_key k"
    if "v \<in> set ?victims"
      and "k \<in> set (filter (in_scope memory_type user_id) (prune_memory cfg memory_type user_id table))"
    for v k
  proof -
    from that(2) have "k \<in> set ?scoped" "k \<notin> set ?victims" by (simp_all add: p)
    with that(1) show ?thesis by (rule lowest_below_rest)
  qed
  have "int (length ?victims) = int (length ?scoped) - cap" using lv over by simp
  with p sub dv after low show ?thesis by blast
qed

lemma prune_memory_within:
  assumes "int (length (filter (in_scope memory_type user_id) table)) \<le> cap"
    and "max_items_of cfg memory_type = Some cap"
  shows "prune_memory cfg memory_type user_id table = table"
  using assms by (simp add: prune_memory_def Let_def)

lemma prune_memory_unlimited:
  assumes "max_items_of cfg memory_type = Some cap" "cap \<le> 0"
  shows "prune_memory cfg memory_type user_id table = table"
  using assms by (simp add: prune_memory_def)

lemma max_items_of_valid:
  "max_items_of cfg memory_type = Some cap \<Longrightarrow>
     memory_type \<in> set [''working'', ''short_term'', ''long_term'']"
  by (auto simp: max_items_of_def split: if_splits)

text \<open>Adding to a scope that is exactly full removes one row, a lowest one of the scope.\<close>

lemma add_to_memory_prunes_one:
  assumes cap: "max_items_of cfg memory_type = Some cap" "0 < cap"
    and content: "py_strip content \<noteq> []"
    and ids: "distinct (map mi_id table)" "\<forall>r \<in> set table. mi_id r < nid"
    and full: "int (length (filter (in_scope memory_type user_id) table)) = cap"
  shows "\<exists>new victim.
           mi_id new = nid \<and> mi_memory_type new = memory_type \<and> mi_user_id new = user_id \<and>
           mi_importance new = importance \<and> mi_created_at new = now \<and> mi_last_accessed_at new = now \<and>
           victim \<in> set (filter (in_scope memory_type user_id) (table @ [new])) \<and>
           rows (snd (add_to_memory cfg now content memory_type user_id conversation_id importance
                        \<lparr>rows = table, next_id = nid\<rparr>))
             = filter (\<lambda>r. r \<noteq> victim) (table @ [new]) \<and>
           int (length (filter (in_scope memory_type user_id)
                  (rows (snd (add_to_memory cfg now content memory_type user_id conversation_id
                                importance \<lparr>rows = table, next_id = nid\<rparr>))))) = cap \<and>
           (\<forall>k \<in> set (filter (in_scope memory_type user_id) (table @ [new])).
              prune_key victim \<le> prune_key k)"
proof -
  define new where "new =
     \<lparr>mi_id = nid, mi_user_id = user_id,
      mi_conversation_id = (if truthy_str conversation_id then parse_uuid cfg (the conversation_id)
                            else None),
      mi_content = content, mi_memory_type = memory_type, mi_importance = importance,
      mi_access_count = 0, mi_created_at = now, mi_last_accessed_at = now,
      mi_expires_at = (if memory_type = ''working'' then Some (now + working_memory_ttl cfg)
                       else if memory_type = ''short_term'' then Some (now + short_term_memory_ttl cfg)
                       else None)\<rparr>"
  let ?scope = "in_scope memory_type user_id"
  let ?table = "table @ [new]"
  have valid: "memory_type \<in> set [''working'', ''short_term'', ''long_term'']"
    by (rule max_items_of_valid [OF cap(1)])
  have add: "rows (snd (add_to_memory cfg now content memory_type user_id conversation_id importance
                        \<lparr>rows = table, next_id = nid\<rparr>))
             = prune_memory cfg memory_type user_id ?table"
    using content valid by (simp add: add_to_memory_def Let_def new_def)
  have ids': "distinct (map mi_id ?table)" using ids by (auto simp: new_def)
  have new_in: "?scope new" by (simp add: in_scope_def new_def)
  then have over: "int (length (filter ?scope ?table)) > cap" using full by simp
  from prune_memory_excess [OF cap ids' over] obtain victims where v:
    "prune_memory cfg memory_type user_id ?table = filter (\<lambda>r. r \<notin> set victims) ?table"
    "set victims \<subseteq> set (filter ?scope ?table)" "distinct victims"
    "int (length victims) = int (length (filter ?scope ?table)) - cap"
    "int (length (filter ?scope (prune_memory cfg memory_type user_id ?table))) = cap"
    "\<forall>v \<in> set victims. \<forall>k \<in> set (filter ?scope (prune_memory cfg memory_type user_id ?table)).
        prune_key v \<le> prune_key k"
    by blast
  have "length victims = 1" using v(4) new_in full by simp
  then obtain victim where victim: "victims = [victim]" by (cases victims) auto
  have p: "prune_memory cfg memory_type user_id ?table = filter (\<lambda>r. r \<noteq> victim) ?table"
    using v(1) victim by simp
  have vin: "victim \<in> set (filter ?scope ?table)" using v(2) victim by simp
  have low: "prune_key victim \<le> prune_key k" if k: "k \<in> set (filter ?scope ?table)" for k
  proof (cases "k = victim")
    case True
    then show ?thesis by simp
  next
    case False
    have "k \<in> set ?table \<and> ?scope k" using k by (simp only: set_filter mem_Collect_eq)
    then have "k \<in> set (filter ?scope (filter (\<lambda>r. r \<noteq> victim) ?table))"
      using False by (simp only: set_filter mem_Collect_eq) blast
    then have "k \<in> set (filter ?scope (prune_memory cfg memory_type user_id ?table))"
      by (simp only: p)
    then show ?thesis using v(6) victim by simp
  qed
  have "mi_id new = nid \<and> mi_memory_type new = memory_type \<and> mi_user_id new = user_id \<and>
        mi_importance new = importance \<and> mi_created_at new = now \<and> mi_last_accessed_at new = now"
    by (simp add: new_def)
  with vin p v(5) low add show ?thesis by (metis (no_types, lifting))
qed

text \<open>
  C8 (amended). For a memory type with a positive limit, and a table whose ids are
  unique: pruning a scope (the rows of the type, of the given user when the user id is
  truthy) changes nothing when the scope is within the limit; otherwise it deletes
  exactly the excess, rows of the scope that are lowest in (importance, last access,
  creation); afterwards the scope holds at most the limit. Adding an item to a scope
  that holds exactly the limit deletes one row, a lowest one of the scope with the new
  item included, and leaves the scope at the limit.
\<close>

theorem prune_memory_capacity:
  assumes "max_items_of cfg memory_type = Some cap" and "0 < cap" and "distinct (map mi_id table)"
  shows "(int (length (filter (in_scope memory_type user_id) table)) \<le> cap \<longrightarrow>
            prune_memory cfg memory_type user_id table = table)
       \<and> int (length (filter (in_scope memory_type user_id)
                  (prune_memory cfg memory_type user_id table))) \<le> cap
       \<and> (int (length (filter (in_scope memory_type user_id) table)) > cap \<longrightarrow>
            (\<exists>victims.
               prune_memory cfg memory_type user_id table = filter (\<lambda>r. r \<notin> set victims) table \<and>
               set victims \<subseteq> set (filter (in_scope memory_type user_id) table) \<and> distinct victims \<and>
               int (length victims) = int (length (filter (in_scope memory_type user_id) table)) - cap \<and>
               int (length (filter (in_scope memory_type user_id)
                              (prune_memory cfg memory_type user_id table))) = cap \<and>
               (\<forall>v \<in> set victims.
                  \<forall>k \<in> set (filter (in_scope memory_type user_id)
                                 (prune_memory cfg memory_type user_id table)).
                    prune_key v \<le> prune_key k)))
       \<and> (\<forall>now content conversation_id importance nid.
            py_strip content \<noteq> [] \<and> (\<forall>r \<in> set table. mi_id r < nid) \<and>
            int (length (filter (in_scope memory_type user_id) table)) = cap \<longrightarrow>
            (\<exists>new victim.
               mi_id new = nid \<and> mi_memory_type new = memory_type \<and> mi_user_id new = user_id \<and>
               mi_importance new = importance \<and> mi_created_at new = now \<and>
               mi_last_accessed_at new = now \<and>
               victim \<in> set (filter (in_scope memory_type user_id) (table @ [new])) \<and>
               rows (snd (add_to_memory cfg now content memory_type user_id conversation_id
                            importance \<lparr>rows = table, next_id = nid\<rparr>))
                 = filter (\<lambda>r. r \<noteq> victim) (table @ [new]) \<and>
               int (length (filter (in_scope memory_type user_id)
                      (rows (snd (add_to_memory cfg now content memory_type user_id conversation_id
                                    importance \<lparr>rows = table, next_id = nid\<rparr>))))) = cap \<and>
               (\<forall>k \<in> set (filter (in_scope memory_type user_id) (table @ [new])).
                  prune_key victim \<le> prune_key k)))"
proof (intro conjI impI allI)
  assume "int (length (filter (in_scope memory_type user_id) table)) \<le> cap"
  then show "prune_memory cfg memory_type user_id table = table"
    using assms(1) by (rule prune_memory_within)
next
  show "int (length (filter (in_scope memory_type user_id)
                  (prune_memory cfg memory_type user_id table))) \<le> cap"
  proof (cases "int (length (filter (in_scope memory_type user_id) table)) \<le> cap")
    case True
    then show ?thesis using prune_memory_within [OF True assms(1)] by simp
  next
    case False
    then have "int (length (filter (in_scope memory_type user_id) table)) > cap" by simp
    from prune_memory_excess [OF assms this] show ?thesis by auto
  qed
next
  assume "int (length (filter (in_scope memory_type user_id) table)) > cap"
  from prune_memory_excess [OF assms this]
  show "\<exists>victims.
               prune_memory cfg memory_type user_id table = filter (\<lambda>r. r \<notin> set victims) table \<and>
               set victims \<subseteq> set (filter (in_scope memory_type user_id) table) \<and> distinct victims \<and>
               int (length victims) = int (length (filter (in_scope memory_type user_id) table)) - cap \<and>
               int (length (filter (in_scope memory_type user_id)
                              (prune_memory cfg memory_type user_id table))) = cap \<and>
               (\<forall>v \<in> set victims.
                  \<forall>k \<in> set (filter (in_scope memory_type user_id)
                                 (prune_memory cfg memory_type user_id table)).
                    prune_key v \<le> prune_key k)" .
next
  fix now content conversation_id importance nid
  assume a: "py_strip content \<noteq> [] \<and> (\<forall>r \<in> set table. mi_id r < nid) \<and>
            int (length (filter (in_scope memory_type user_id) table)) = cap"
  then have "py_strip content \<noteq> []" "\<forall>r \<in> set table. mi_id r < nid"
    "int (length (filter (in_scope memory_type user_id) table)) = cap" by simp_all
  from add_to_memory_prunes_one [OF assms(1,2) this(1) assms(3) this(2,3)]
  show "\<exists>new victim.
               mi_id new = nid \<and> mi_memory_type new = memory_type \<and> mi_user_id new = user_id \<and>
               mi_importance new = importance \<and> mi_created_at new = now \<and>
               mi_last_accessed_at new = now \<and>
               victim \<in> set (filter (in_scope memory_type user_id) (table @ [new])) \<and>
               rows (snd (add_to_memory cfg now content memory_type user_id conversation_id
                            importance \<lparr>rows = table, next_id = nid\<rparr>))
                 = filter (\<lambda>r. r \<noteq> victim) (table @ [new]) \<and>
               int (length (filter (in_scope memory_type user_id)
                      (rows (snd (add_to_memory cfg now content memory_type user_id conversation_id
                                    importance \<lparr>rows = table, next_id = nid\<rparr>))))) = cap \<and>
               (\<forall>k \<in> set (filter (in_scope memory_type user_id) (table @ [new])).
                  prune_key victim \<le> prune_key k)" .
qed

lemmas memory_eval =
  prune_memory_def max_items_of_def config_with_working_limit_def default_memory_config_def
  in_scope_def truthy_int_def item_def delete_lowest_def prune_key_def Let_def add_to_memory_def
  py_strip_def is_space_def truthy_str_def less_eq_prod_def less_prod_def get_memory_def
  get_recent_memory_def semantic_memory_search_def where_clause_def format_item_def
  update_access_count_def recent_order_def semantic_order_def

text \<open>
  Working memory limited to two items; user 7 holds three. Pruning the scope of user 7
  deletes item 2, the lowest in (importance, last access, creation): it ties with item 4
  on importance and was accessed earlier. Item 3 of user 8 is outside the scope.
\<close>

theorem prune_memory_capacity_witness:
  "map mi_id (prune_memory (config_with_working_limit 2) ''working'' (Some 7)
     [item 1 (Some 7) ''working'' 0.5 10 10, item 2 (Some 7) ''working'' 0.2 11 11,
      item 3 (Some 8) ''working'' 0.1 12 12, item 4 (Some 7) ''working'' 0.2 9 13]) = [1, 3, 4]
   \<and> int (length (filter (in_scope ''working'' (Some 7))
          (prune_memory (config_with_working_limit 2) ''working'' (Some 7)
             [item 1 (Some 7) ''working'' 0.5 10 10, item 2 (Some 7) ''working'' 0.2 11 11,
              item 3 (Some 8) ''working'' 0.1 12 12, item 4 (Some 7) ''working'' 0.2 9 13]))) \<le> 2"
proof -
  let ?table = "[item 1 (Some 7) ''working'' 0.5 10 10, item 2 (Some 7) ''working'' 0.2 11 11,
      item 3 (Some 8) ''working'' 0.1 12 12, item 4 (Some 7) ''working'' 0.2 9 13]"
  have ev: "map mi_id (prune_memory (config_with_working_limit 2) ''working'' (Some 7) ?table)
              = [1, 3, 4]"
    by (simp add: memory_eval)
  have cap: "max_items_of (config_with_working_limit 2) ''working'' = Some 2"
    by (simp add: max_items_of_def config_with_working_limit_def default_memory_config_def)
  have pos: "(0::int) < 2" by simp
  have ids: "distinct (map mi_id ?table)" by (simp add: item_def)
  have "int (length (filter (in_scope ''working'' (Some 7))
          (prune_memory (config_with_working_limit 2) ''working'' (Some 7) ?table))) \<le> 2"
    using prune_memory_capacity [OF cap pos ids, of "Some 7"] by blast
  with ev show ?thesis by (rule conjI)
qed

text \<open>
  A limit of 0 means that no limit is set: the pass deletes nothing and the scope stays
  above the configured value. And the scope of a pass is one user's rows: with a limit
  of 2 and one item each of users 7 and 8, a third item added by user 7 deletes nothing
  and the memory type then holds three items.
\<close>

theorem prune_memory_capacity_counterexample:
  "max_items_of (config_with_working_limit 0) ''working'' = Some 0
   \<and> length (filter (in_scope ''working'' None)
        (prune_memory (config_with_working_limit 0) ''working'' None
           [item 1 (Some 7) ''working'' 0.5 10 10])) = 1
   \<and> map mi_id (filter (\<lambda>r. mi_memory_type r = ''working'')
        (rows (snd (add_to_memory (config_with_working_limit 2) 50 ''hello'' ''working'' (Some 7)
                      None 0.5
                      \<lparr>rows = [item 1 (Some 7) ''working'' 0.5 10 10,
                               item 2 (Some 8) ''working'' 0.2 11 11], next_id = 3\<rparr>)))) = [1, 2, 3]"
  by (simp add: memory_eval)

subsection \<open>Filters that are dropped for falsy arguments\<close>

lemma where_clause_user_zero:
  "where_clause cfg now memory_type (Some 0) conversation_id min_importance =
   where_clause cfg now memory_type None conversation_id min_importance"
  by (rule ext) (simp add: where_clause_def truthy_int_def)

text \<open>
  C10. \<^verbatim>\<open>get_memory\<close> with \<^verbatim>\<open>user_id = 0\<close> is \<^verbatim>\<open>get_memory\<close> without user filter, with a query
  (semantic path) and without (recent path): the selection does not look at the user
  of a row, so items of any user are returned. With \<^verbatim>\<open>min_importance = 0\<close> the selection
  does not look at the importance of a row either. Example: two items of users 7 and 8,
  one with negative importance, are both returned on either path.
\<close>

theorem get_memory_falsy_filters:
  "get_memory cfg now query memory_type (Some 0) conversation_id limit min_importance
       recency_weight include_content store
     = get_memory cfg now query memory_type None conversation_id limit min_importance
         recency_weight include_content store
   \<and> where_clause cfg now memory_type (Some 0) conversation_id min_importance (r\<lparr>mi_user_id := u\<rparr>)
     = where_clause cfg now memory_type (Some 0) conversation_id min_importance r
   \<and> where_clause cfg now memory_type user_id conversation_id 0 (r\<lparr>mi_importance := x\<rparr>)
     = where_clause cfg now memory_type user_id conversation_id 0 r
   \<and> map (\<lambda>i. (it_id i, it_user_id i, it_importance i))
       (fst (get_memory default_memory_config 100 None None (Some 0) None 10 0 0.5 True
          \<lparr>rows = [item 1 (Some 7) ''working'' 0.5 10 10,
                   item 2 (Some 8) ''working'' (- 0.2) 11 11], next_id = 3\<rparr>))
     = [(1, Some 7, 0.5), (2, Some 8, - 0.2)]
   \<and> map (\<lambda>i. (it_id i, it_user_id i, it_importance i))
       (fst (get_memory default_memory_config 100 (Some ''note'') None (Some 0) None 10 0 0.5 True
          \<lparr>rows = [item 1 (Some 7) ''working'' 0.5 10 10,
                   item 2 (Some 8) ''working'' (- 0.2) 11 11], next_id = 3\<rparr>))
     = [(2, Some 8, - 0.2), (1, Some 7, 0.5)]"
proof (intro conjI)
  show "get_memory cfg now query memory_type (Some 0) conversation_id limit min_importance
       recency_weight include_content store
     = get_memory cfg now query memory_type None conversation_id limit min_importance
         recency_weight include_content store"
    by (simp only: get_memory_def get_recent_memory_def semantic_memory_search_def
          where_clause_user_zero)
  show "where_clause cfg now memory_type (Some 0) conversation_id min_importance (r\<lparr>mi_user_id := u\<rparr>)
     = where_clause cfg now memory_type (Some 0) conversation_id min_importance r"
    by (simp add: where_clause_def truthy_int_def split: option.splits)
  show "where_clause cfg now memory_type user_id conversation_id 0 (r\<lparr>mi_importance := x\<rparr>)
     = where_clause cfg now memory_type user_id conversation_id 0 r"
    by (simp add: where_clause_def split: option.splits)
  show "map (\<lambda>i. (it_id i, it_user_id i, it_importance i))
       (fst (get_memory default_memory_config 100 None None (Some 0) None 10 0 0.5 True
          \<lparr>rows = [item 1 (Some 7) ''working'' 0.5 10 10,
                   item 2 (Some 8) ''working'' (- 0.2) 11 11], next_id = 3\<rparr>))
     = [(1, Some 7, 0.5), (2, Some 8, - 0.2)]"
    by (simp add: memory_eval)
  show "map (\<lambda>i. (it_id i, it_user_id i, it_importance i))
       (fst (get_memory default_memory_config 100 (Some ''note'') None (Some 0) None 10 0 0.5 True
          \<lparr>rows = [item 1 (Some 7) ''working'' 0.5 10 10,
                   item 2 (Some 8) ''working'' (- 0.2) 11 11], next_id = 3\<rparr>))
     = [(2, Some 8, - 0.2), (1, Some 7, 0.5)]"
    by (simp add: memory_eval)
qed

end
